(* ===== verification/Prelude.thy ===== *)
theory Prelude
  imports Main "HOL-Library.Word" "HOL-Library.Monad_Syntax"
begin

text \<open>
  What every component of the development shares: bytes and Go strings, the errors of the
  standard library, run-time panics as the value None of an option, bounds-checked indexing and
  slicing, the fixed-width encodings of package encoding/binary, and the number formatting of
  package fmt.

  Conventions. A Go \<open>[]byte\<close> is a list of \<open>8 word\<close>; a Go \<open>string\<close>, an immutable byte sequence,
  is a HOL \<open>string\<close> (a list of 8-bit characters). The conversions \<open>string(b)\<close> and \<open>[]byte(s)\<close>
  are \<open>str_of\<close> and \<open>bytes_of\<close>, inverse to each other. A Go function that can panic returns an
  option: None is the panic, and \<open>Some r\<close> a normal return with result \<open>r\<close>.
\<close>

unbundle bit_operations_syntax

named_theorems go_access \<comment> \<open>unfolding rules for indexing, slicing and fixed-width reads\<close>
named_theorems codec \<comment> \<open>values and lengths of byte encodings\<close>

text \<open>Goals about the success flag of a comma-ok pair.\<close>

lemma ex_bool [simp]: "Ex Not" "\<exists>x. x"
  by blast+

section \<open>Bytes and strings\<close>

type_synonym byte = "8 word"
type_synonym bytes = "8 word list"

text \<open>Go's \<open>string(b)\<close> and \<open>[]byte(s)\<close>.\<close>

definition char_of_byte :: "byte \<Rightarrow> char" where
  "char_of_byte b = char_of (unat b)"

definition byte_of_char :: "char \<Rightarrow> byte" where
  "byte_of_char c = of_nat (of_char c)"

definition str_of :: "bytes \<Rightarrow> string" where
  "str_of bs = map char_of_byte bs"

definition bytes_of :: "string \<Rightarrow> bytes" where
  "bytes_of s = map byte_of_char s"

lemma unat_byte_of_char [simp]: "unat (byte_of_char c) = of_char c"
proof -
  have "of_char c < (256::nat)" by simp
  then show ?thesis by (simp add: byte_of_char_def unat_of_nat)
qed

lemma char_of_byte_inverse [simp]: "char_of_byte (byte_of_char c) = c"
  by (simp add: char_of_byte_def)

lemma byte_of_char_inverse [simp]: "byte_of_char (char_of_byte b) = b"
proof -
  have "unat b < 256"
    using unsigned_less [of b] by simp
  then show ?thesis by (simp add: byte_of_char_def char_of_byte_def)
qed

lemma str_of_bytes_of [simp]: "str_of (bytes_of s) = s"
  by (simp add: str_of_def bytes_of_def comp_def)

lemma bytes_of_str_of [simp]: "bytes_of (str_of b) = b"
  by (simp add: str_of_def bytes_of_def comp_def)

lemma length_str_of [simp]: "length (str_of b) = length b"
  by (simp add: str_of_def)

lemma length_bytes_of [simp]: "length (bytes_of s) = length s"
  by (simp add: bytes_of_def)

lemma str_of_append [simp]: "str_of (a @ b) = str_of a @ str_of b"
  by (simp add: str_of_def)

lemma bytes_of_append [simp]: "bytes_of (a @ b) = bytes_of a @ bytes_of b"
  by (simp add: bytes_of_def)

lemma str_of_Nil [simp]: "str_of [] = []"
  by (simp add: str_of_def)

lemma bytes_of_Nil [simp]: "bytes_of [] = []"
  by (simp add: bytes_of_def)

lemma str_of_eq_Nil [simp]: "str_of b = [] \<longleftrightarrow> b = []"
  by (simp add: str_of_def)

lemma bytes_of_eq_Nil [simp]: "bytes_of s = [] \<longleftrightarrow> s = []"
  by (simp add: bytes_of_def)

lemma byte_of_char_inj [simp]: "byte_of_char c = byte_of_char d \<longleftrightarrow> c = d"
  by (metis char_of_byte_inverse)

lemma char_of_byte_inj [simp]: "char_of_byte a = char_of_byte b \<longleftrightarrow> a = b"
  by (metis byte_of_char_inverse)

text \<open>A string free of NUL bytes: what a C string can carry.\<close>

definition no_nul :: "string \<Rightarrow> bool" where
  "no_nul s \<longleftrightarrow> (\<forall>c \<in> set s. c \<noteq> CHR 0x00)"

lemma byte_of_char_zero [simp]: "byte_of_char c = 0 \<longleftrightarrow> c = CHR 0x00"
proof
  assume "byte_of_char c = 0"
  then have "unat (byte_of_char c) = 0" by simp
  then have "of_char c = (of_char CHR 0x00 :: nat)" by simp
  then show "c = CHR 0x00" by (rule of_char_eqI)
next
  assume "c = CHR 0x00"
  then show "byte_of_char c = 0" by (simp add: byte_of_char_def)
qed

lemma no_nul_bytes: "no_nul s \<longleftrightarrow> 0 \<notin> set (bytes_of s)"
proof -
  have "0 \<in> set (bytes_of s) \<longleftrightarrow> (\<exists>c \<in> set s. byte_of_char c = 0)"
    by (force simp: bytes_of_def simp del: byte_of_char_zero)
  then show ?thesis by (auto simp: no_nul_def)
qed

section \<open>Errors\<close>

text \<open>
  Values of the interface \<open>error\<close>: \<open>io.EOF\<close>, \<open>io.ErrUnexpectedEOF\<close>, an error of the environment
  (a broken connection, a failed HTTP exchange), an error made by \<open>fmt.Errorf\<close> without a wrapped
  cause, and one made with the verb \<open>%w\<close>. \<open>errors_Is\<close> is \<open>errors.Is\<close>: it follows the wrapped causes.
\<close>

datatype go_error =
  EOF
| UnexpectedEOF
| EnvError string
| Errorf string
| WrapErr string go_error

fun errors_Is :: "go_error \<Rightarrow> go_error \<Rightarrow> bool" where
  "errors_Is (WrapErr m e) t \<longleftrightarrow> WrapErr m e = t \<or> errors_Is e t"
| "errors_Is e t \<longleftrightarrow> e = t"

section \<open>Indexing and slicing that may panic\<close>

definition index :: "'a list \<Rightarrow> nat \<Rightarrow> 'a option" where
  [go_access]: "index xs i = (if i < length xs then Some (xs ! i) else None)"

definition slice :: "'a list \<Rightarrow> nat \<Rightarrow> nat \<Rightarrow> 'a list option" where
  [go_access]: "slice xs lo hi =
     (if lo \<le> hi \<and> hi \<le> length xs then Some (take (hi - lo) (drop lo xs)) else None)"

text \<open>\<open>xs[lo:]\<close>.\<close>

definition slice_from :: "'a list \<Rightarrow> nat \<Rightarrow> 'a list option" where
  [go_access]: "slice_from xs lo = (if lo \<le> length xs then Some (drop lo xs) else None)"

lemma slice_append [simp]: "slice (a @ b @ c) (length a) (length a + length b) = Some b"
  by (simp add: slice_def)

text \<open>
  Writing into a buffer of fixed length: \<open>buf[i] = b\<close>, and \<open>copy(buf[pos:], src)\<close>, which copies what
  fits. Both panic when the offset is outside the buffer. A buffer that is filled from the front is
  what was written followed by the zeroes of \<open>make\<close>.
\<close>

definition put :: "bytes \<Rightarrow> nat \<Rightarrow> byte \<Rightarrow> bytes option" where
  "put buf i b = (if i < length buf then Some (buf[i := b]) else None)"

definition copy_at :: "bytes \<Rightarrow> nat \<Rightarrow> bytes \<Rightarrow> bytes option" where
  "copy_at buf pos src =
     (if pos \<le> length buf
      then Some (take pos buf @ take (length buf - pos) src @ drop (pos + length src) buf)
      else None)"

definition filled :: "bytes \<Rightarrow> nat \<Rightarrow> bytes" where
  "filled w k = w @ replicate k 0"

lemma put_filled:
  "0 < k \<Longrightarrow> n = length w \<Longrightarrow> put (filled w k) n b = Some (filled (w @ [b]) (k - 1))"
  by (cases k) (simp_all add: put_def filled_def list_update_append)

lemma copy_filled:
  "length src \<le> k \<Longrightarrow> n = length w \<Longrightarrow>
     copy_at (filled w k) n src = Some (filled (w @ src) (k - length src))"
  by (simp add: copy_at_def filled_def)

lemma make_filled: "replicate n 0 = filled [] n"
  by (simp add: filled_def)

lemma filled_0: "filled w 0 = w"
  by (simp add: filled_def)

lemmas fill_buffer = put_filled copy_filled filled_0

text \<open>
  The scan \<open>for pos < len(p) && p[pos] != 0 { pos++ }\<close>, which six parsers share.
\<close>

function scan_nul :: "bytes \<Rightarrow> nat \<Rightarrow> nat" where
  "scan_nul p pos = (if pos < length p \<and> p ! pos \<noteq> 0 then scan_nul p (Suc pos) else pos)"
  by pat_completeness auto
termination
  by (relation "measure (\<lambda>(p, pos). length p - pos)") auto

declare scan_nul.simps [simp del]

lemma scan_nul_eq: "scan_nul p pos = pos + length (takeWhile (\<lambda>b. b \<noteq> 0) (drop pos p))"
proof (induction p pos rule: scan_nul.induct)
  case (1 p pos)
  show ?case
  proof (cases "pos < length p")
    case True
    with 1 show ?thesis
      by (simp add: scan_nul.simps [of p pos] Cons_nth_drop_Suc [symmetric])
  next
    case False
    then show ?thesis by (simp add: scan_nul.simps [of p pos])
  qed
qed

lemma scan_nul_ge [simp]: "pos \<le> scan_nul p pos"
  by (simp add: scan_nul_eq)

lemma scan_nul_le: "pos \<le> length p \<Longrightarrow> scan_nul p pos \<le> length p"
  using length_takeWhile_le [of "\<lambda>b. b \<noteq> 0" "drop pos p"] by (simp add: scan_nul_eq)

lemma scan_nul_stop: "scan_nul p pos < length p \<Longrightarrow> p ! scan_nul p pos = 0"
proof (induction p pos rule: scan_nul.induct)
  case (1 p pos)
  then show ?case by (cases "pos < length p \<and> p ! pos \<noteq> 0") (auto simp: scan_nul.simps [of p pos])
qed

lemma scan_nul_field:
  assumes "0 \<notin> set s"
  shows "scan_nul (a @ s @ 0 # c) (length a) = length a + length s"
proof -
  have "takeWhile (\<lambda>b. b \<noteq> 0) (s @ 0 # c) = s"
    using assms by (subst takeWhile_append2) auto
  then show ?thesis by (simp add: scan_nul_eq)
qed

lemma scan_nul_no_field:
  assumes "0 \<notin> set s"
  shows "scan_nul (a @ s) (length a) = length a + length s"
proof -
  have "length (takeWhile (\<lambda>b. b \<noteq> 0) s) = length s"
    using assms by (induction s) auto
  then show ?thesis by (simp add: scan_nul_eq)
qed

section \<open>Fixed-width integers\<close>

text \<open>The number a little-endian (big-endian) byte sequence stands for, and its encoding in \<open>k\<close> bytes.\<close>

fun le_val :: "bytes \<Rightarrow> nat" where
  "le_val [] = 0"
| "le_val (b # bs) = unat b + 256 * le_val bs"

fun le_bytes :: "nat \<Rightarrow> nat \<Rightarrow> bytes" where
  "le_bytes 0 n = []"
| "le_bytes (Suc k) n = of_nat (n mod 256) # le_bytes k (n div 256)"

definition be_val :: "bytes \<Rightarrow> nat" where
  "be_val bs = le_val (rev bs)"

definition be_bytes :: "nat \<Rightarrow> nat \<Rightarrow> bytes" where
  "be_bytes k n = rev (le_bytes k n)"

lemma unat_byte_lt [simp]: "unat (b::byte) < 256"
  using unsigned_less [of b] by simp

lemma unat_word32_lt [simp]: "unat (w::32 word) < 4294967296"
  using unsigned_less [of w] by simp

lemma unat_word64_lt [simp]: "unat (w::64 word) < 18446744073709551616"
  using unsigned_less [of w] by simp

lemma unat_of_nat_byte: "unat (of_nat n :: byte) = n mod 256"
  by (simp add: unat_of_nat)

lemma length_le_bytes [simp, codec]: "length (le_bytes k n) = k"
  by (induction k arbitrary: n) auto

lemma length_be_bytes [simp, codec]: "length (be_bytes k n) = k"
  by (simp add: be_bytes_def)

lemma le_val_bytes [codec]: "le_val (le_bytes k n) = n mod 256 ^ k"
  by (induction k arbitrary: n) (simp_all add: unat_of_nat_byte mod_mult2_eq)

lemma be_val_bytes [codec]: "be_val (be_bytes k n) = n mod 256 ^ k"
  by (simp add: be_val_def be_bytes_def le_val_bytes)

lemma le_val_lt: "le_val bs < 256 ^ length bs"
proof (induction bs)
  case Nil
  then show ?case by simp
next
  case (Cons b bs)
  have "unat b + 256 * le_val bs < 256 + 256 * le_val bs"
    using unat_byte_lt [of b] by linarith
  also have "\<dots> \<le> 256 * 256 ^ length bs"
    using Cons by simp
  finally show ?case by simp
qed

lemma be_val_lt: "be_val bs < 256 ^ length bs"
  using le_val_lt [of "rev bs"] by (simp add: be_val_def)

lemma le_bytes_val: "le_bytes (length bs) (le_val bs) = bs"
  by (induction bs) (simp_all add: unat_byte_lt div_mult_self4 mod_less unat_of_nat_byte)

lemma be_bytes_val: "be_bytes (length bs) (be_val bs) = bs"
  using le_bytes_val [of "rev bs"] by (simp add: be_val_def be_bytes_def)

lemma le_bytes_inj:
  assumes "length a = length b" and "le_val a = le_val b"
  shows "a = b"
  using assms by (metis le_bytes_val)

text \<open>
  \<open>binary.LittleEndian.Uint16\<close> and its siblings: they read the first bytes of the slice and panic
  when it is too short. \<open>PutUint32\<close> writes four bytes.
\<close>

definition LE_Uint16 :: "bytes \<Rightarrow> 16 word option" where
  "LE_Uint16 b = (if length b < 2 then None else Some (of_nat (le_val (take 2 b))))"

definition LE_Uint32 :: "bytes \<Rightarrow> 32 word option" where
  "LE_Uint32 b = (if length b < 4 then None else Some (of_nat (le_val (take 4 b))))"

definition LE_Uint64 :: "bytes \<Rightarrow> 64 word option" where
  "LE_Uint64 b = (if length b < 8 then None else Some (of_nat (le_val (take 8 b))))"

definition BE_Uint16 :: "bytes \<Rightarrow> 16 word option" where
  "BE_Uint16 b = (if length b < 2 then None else Some (of_nat (be_val (take 2 b))))"

definition BE_Uint32 :: "bytes \<Rightarrow> 32 word option" where
  "BE_Uint32 b = (if length b < 4 then None else Some (of_nat (be_val (take 4 b))))"

definition LE_PutUint32 :: "32 word \<Rightarrow> bytes" where
  "LE_PutUint32 v = le_bytes 4 (unat v)"

definition BE_PutUint32 :: "32 word \<Rightarrow> bytes" where
  "BE_PutUint32 v = be_bytes 4 (unat v)"

lemmas fixed_read_defs [go_access] =
  LE_Uint16_def LE_Uint32_def LE_Uint64_def BE_Uint16_def BE_Uint32_def

lemma length_PutUint32 [simp, codec]:
  "length (LE_PutUint32 v) = 4" "length (BE_PutUint32 v) = 4"
  by (simp_all add: LE_PutUint32_def BE_PutUint32_def)

lemma LE_Uint32_Put [simp]: "LE_Uint32 (LE_PutUint32 v @ r) = Some v"
proof -
  have "unat v < 256 ^ 4"
    using unsigned_less [of v] by simp
  then show ?thesis
    by (simp add: LE_Uint32_def LE_PutUint32_def le_val_bytes)
qed

lemma BE_Uint32_Put [simp]: "BE_Uint32 (BE_PutUint32 v @ r) = Some v"
proof -
  have "unat v < 256 ^ 4"
    using unsigned_less [of v] by simp
  then show ?thesis
    by (simp add: BE_Uint32_def BE_PutUint32_def be_val_bytes)
qed

lemma unat_word32_le: "unat (of_nat (le_val (take 4 b)) :: 32 word) = le_val (take 4 b)"
proof -
  have "le_val (take 4 b) < 256 ^ 4"
    by (rule order_less_le_trans [OF le_val_lt]) (rule power_increasing; simp)
  then show ?thesis by (simp add: unat_of_nat)
qed

text \<open>The idiom \<open>lo | hi << k\<close> on non-negative values is addition when \<open>lo\<close> fits in \<open>k\<close> bits.\<close>

lemma or_push_bit:
  fixes a b :: nat
  assumes "a < 2 ^ k"
  shows "a OR push_bit k b = a + 2 ^ k * b"
proof -
  have lt: "n < k" if "bit a n" for n
    using assms that by (metis bit_take_bit_iff take_bit_nat_eq_self)
  have "a AND push_bit k b = 0"
    by (rule bit_eqI) (auto simp: bit_simps dest: lt)
  then have "a + push_bit k b = a OR push_bit k b"
    by (rule disjunctive_add_eq_or)
  then show ?thesis by (simp add: push_bit_eq_mult mult.commute)
qed

text \<open>An \<open>int32\<close> is a 32-bit word read as two's complement.\<close>

lemma sint_small_word32:
  assumes "n < 2 ^ 31"
  shows "sint (of_nat n :: 32 word) = int n"
  using assms by (simp add: signed_of_nat signed_take_bit_int_eq_self)

lemma sint_nonneg_unat:
  assumes "0 \<le> sint (w :: 32 word)"
  shows "sint w = int (unat w)"
proof -
  have "sint w < 2 ^ 31" using sint_lt [of w] by simp
  moreover obtain i where i: "sint w = i" by blast
  ultimately have "uint (word_of_int i :: 32 word) = i"
    using assms by (subst uint_word_of_int_eq) (simp add: take_bit_int_eq_self)
  moreover have "word_of_int i = w" using i by (metis scast_eq scast_id)
  ultimately show ?thesis using i by simp
qed

lemma sint_nonneg_small:
  assumes "0 \<le> sint (w :: 32 word)"
  shows "unat w < 2 ^ 31"
proof -
  have "int (unat w) < 2 ^ 31"
    using sint_nonneg_unat [OF assms] sint_lt [of w] by (simp only:) simp
  then show ?thesis by (simp only: of_nat_less_numeral_power_cancel_iff)
qed

section \<open>Formatting\<close>

text \<open>\<open>%d\<close> of a natural number and of a signed one; \<open>%02x\<close> of a byte.\<close>

definition digit_char :: "nat \<Rightarrow> char" where
  "digit_char n = ''0123456789abcdef'' ! (n mod 16)"

fun show_nat :: "nat \<Rightarrow> string" where
  "show_nat n = (if n < 10 then [digit_char n] else show_nat (n div 10) @ [digit_char (n mod 10)])"

declare show_nat.simps [simp del]

definition show_int :: "int \<Rightarrow> string" where
  "show_int i = (if i < 0 then ''-'' @ show_nat (nat (- i)) else show_nat (nat i))"

definition hex2 :: "byte \<Rightarrow> string" where
  "hex2 b = [digit_char (unat b div 16), digit_char (unat b mod 16)]"

definition hex_encode :: "bytes \<Rightarrow> string" where
  "hex_encode bs = concat (map hex2 bs)"

lemma length_hex_encode [simp]: "length (hex_encode bs) = 2 * length bs"
  by (induction bs) (simp_all add: hex_encode_def hex2_def)

lemma digit_char_inj:
  assumes "i < 16" "j < 16" "digit_char i = digit_char j"
  shows "i = j"
proof -
  have "distinct ''0123456789abcdef''" by simp
  moreover have "length ''0123456789abcdef'' = 16" by simp
  ultimately show ?thesis
    using assms by (simp only: digit_char_def mod_less nth_eq_iff_index_eq)
qed

lemma hex2_inj [simp]: "hex2 a = hex2 b \<longleftrightarrow> a = b"
proof
  assume "hex2 a = hex2 b"
  then have "unat a div 16 = unat b div 16" and "unat a mod 16 = unat b mod 16"
    using unat_byte_lt [of a] unat_byte_lt [of b]
    by (auto simp: hex2_def less_mult_imp_div_less intro: digit_char_inj)
  then have "unat a = unat b" by (metis div_mult_mod_eq)
  then show "a = b" by (simp add: word_unat_eq_iff)
qed simp

lemma hex_encode_inj: "length a = length b \<Longrightarrow> hex_encode a = hex_encode b \<Longrightarrow> a = b"
proof (induction a b rule: list_induct2)
  case (Cons x xs y ys)
  then have "hex2 x = hex2 y" and "hex_encode xs = hex_encode ys"
    by (simp_all add: hex_encode_def hex2_def)
  with Cons.IH show ?case by simp
qed simp

end
