(* ===== verification/MySQLCommand.thy ===== *)
theory MySQLCommand
  imports Prelude
begin

text \<open>
  The command phase of the MySQL protocol: capability flags (\<open>protocol/mysql/capabilities.go\<close>),
  command bytes, length-encoded integers and the SQL text of COM_QUERY
  (\<open>protocol/mysql/command.go\<close>). Every function that indexes a payload returns an option whose None
  is a run-time panic; the properties show that none is possible.
\<close>

section \<open>Capability flags\<close>

type_synonym capabilities = "32 word"

definition ClientCompress :: capabilities where "ClientCompress = push_bit 5 1"
definition ClientProtocol41 :: capabilities where "ClientProtocol41 = push_bit 9 1"
definition ClientSSL :: capabilities where "ClientSSL = push_bit 11 1"
definition ClientQueryAttributes :: capabilities where "ClientQueryAttributes = push_bit 27 1"

definition Has :: "capabilities \<Rightarrow> capabilities \<Rightarrow> bool" where
  "Has c flag \<longleftrightarrow> c AND flag = flag"

definition ClientCapabilitiesFromHandshakeResponse :: "bytes \<Rightarrow> (capabilities \<times> bool) option" where
  "ClientCapabilitiesFromHandshakeResponse payload =
     (if length payload < 4 then Some (0, False)
      else do {
        b \<leftarrow> slice payload 0 4;
        v \<leftarrow> LE_Uint32 b;
        Some (v, True)
      })"

section \<open>Commands\<close>

type_synonym command = byte

definition ComQuit :: command where "ComQuit = 0x01"
definition ComInitDB :: command where "ComInitDB = 0x02"
definition ComQuery :: command where "ComQuery = 0x03"
definition ComFieldList :: command where "ComFieldList = 0x04"
definition ComCreateDB :: command where "ComCreateDB = 0x05"
definition ComDropDB :: command where "ComDropDB = 0x06"
definition ComPing :: command where "ComPing = 0x0e"
definition ComStmtPrepare :: command where "ComStmtPrepare = 0x16"
definition ComStmtExecute :: command where "ComStmtExecute = 0x17"
definition ComStmtClose :: command where "ComStmtClose = 0x19"

lemmas com_defs =
  ComQuit_def ComInitDB_def ComQuery_def ComFieldList_def ComCreateDB_def ComDropDB_def
  ComPing_def ComStmtPrepare_def ComStmtExecute_def ComStmtClose_def

definition Command_String :: "command \<Rightarrow> string" where
  "Command_String c =
     (if c = ComQuit then ''COM_QUIT''
      else if c = ComInitDB then ''COM_INIT_DB''
      else if c = ComQuery then ''COM_QUERY''
      else if c = ComFieldList then ''COM_FIELD_LIST''
      else if c = ComCreateDB then ''COM_CREATE_DB''
      else if c = ComDropDB then ''COM_DROP_DB''
      else if c = ComPing then ''COM_PING''
      else if c = ComStmtPrepare then ''COM_STMT_PREPARE''
      else if c = ComStmtExecute then ''COM_STMT_EXECUTE''
      else if c = ComStmtClose then ''COM_STMT_CLOSE''
      else ''COM_UNKNOWN(0x'' @ hex2 c @ '')'')"

section \<open>Length-encoded integers\<close>

text \<open>Value, number of bytes consumed, success.\<close>

definition readLenEncInt :: "bytes \<Rightarrow> (64 word \<times> nat \<times> bool) option" where
  "readLenEncInt b =
     (if length b = 0 then Some (0, 0, False)
      else do {
        first \<leftarrow> index b 0;
        if first < 0xfb then Some (ucast first, 1, True)
        else if first = 0xfc then
          (if length b < 3 then Some (0, 0, False)
           else do {
             bs \<leftarrow> slice b 1 3;
             v \<leftarrow> LE_Uint16 bs;
             Some (ucast v, 3, True)
           })
        else if first = 0xfd then
          (if length b < 4 then Some (0, 0, False)
           else do {
             b1 \<leftarrow> index b 1;
             b2 \<leftarrow> index b 2;
             b3 \<leftarrow> index b 3;
             Some ((ucast b1 OR push_bit 8 (ucast b2)) OR push_bit 16 (ucast b3), 4, True)
           })
        else if first = 0xfe then
          (if length b < 9 then Some (0, 0, False)
           else do {
             bs \<leftarrow> slice b 1 9;
             v \<leftarrow> LE_Uint64 bs;
             Some (v, 9, True)
           })
        else Some (0, 0, False)
      })"

text \<open>The SQL text of a COM_QUERY payload and whether it could be located.\<close>

definition ExtractQuery :: "bytes \<Rightarrow> bool \<Rightarrow> (string \<times> bool) option" where
  "ExtractQuery payload queryAttrs =
     (if length payload = 0 then Some ([], False)
      else do {
        c \<leftarrow> index payload 0;
        if c \<noteq> ComQuery then Some ([], False)
        else do {
          body \<leftarrow> slice_from payload 1;
          if \<not> queryAttrs then Some (str_of body, True)
          else do {
            (paramCount, n1, ok) \<leftarrow> readLenEncInt body;
            if \<not> ok then Some ([], False)
            else do {
              body \<leftarrow> slice_from body n1;
              (set_count, n2, ok) \<leftarrow> readLenEncInt body;
              if \<not> ok then Some ([], False)
              else do {
                body \<leftarrow> slice_from body n2;
                if 0 < paramCount then Some ([], False) else Some (str_of body, True)
              }
            }
          }
        }
      })"

section \<open>Facts about length-encoded integers\<close>

lemma ucast_byte_of_nat: "(ucast (b :: byte) :: 64 word) = of_nat (unat b)"
  by (simp add: word_unat_eq_iff unsigned_ucast_eq unat_of_nat take_bit_eq_mod)

lemma or3_word:
  "((ucast a OR push_bit 8 (ucast b)) OR push_bit 16 (ucast c) :: 64 word)
     = of_nat (le_val [a, b, c])" for a b c :: byte
proof -
  have "unat a < 2 ^ 8" "unat a + 2 ^ 8 * unat b < 2 ^ 16"
    using unat_byte_lt [of a] unat_byte_lt [of b] by (simp_all, linarith)
  note or_push_bit [OF this(1), of "unat b"] or_push_bit [OF this(2), of "unat c"]
  then have "(unat a OR push_bit 8 (unat b)) OR push_bit 16 (unat c) = le_val [a, b, c]" by simp
  then show ?thesis
    by (simp only: ucast_byte_of_nat of_nat_push_bit [symmetric] of_nat_or_eq [symmetric])
qed

text \<open>The width a prefix byte announces; 0 for a byte that is no prefix.\<close>

definition lenenc_width :: "byte \<Rightarrow> nat" where
  "lenenc_width b =
     (if b < 0xfb then 1 else if b = 0xfc then 3 else if b = 0xfd then 4
      else if b = 0xfe then 9 else 0)"

lemma readLenEncInt_eq:
  "readLenEncInt b =
     (if b = [] \<or> lenenc_width (hd b) = 0 \<or> length b < lenenc_width (hd b) then Some (0, 0, False)
      else Some (of_nat (if hd b < 0xfb then unat (hd b)
                         else le_val (take (lenenc_width (hd b) - 1) (tl b))),
                 lenenc_width (hd b), True))"
proof (cases b)
  case Nil
  then show ?thesis by (simp add: readLenEncInt_def)
next
  case (Cons x xs)
  have two: "unat (of_nat (le_val (take 2 xs)) :: 16 word) = le_val (take 2 xs)"
    if "2 \<le> length xs"
    using le_val_lt [of "take 2 xs"] that by (simp add: unat_of_nat)
  have two': "(ucast (of_nat (le_val (take 2 xs)) :: 16 word) :: 64 word) = of_nat (le_val (take 2 xs))"
    if "2 \<le> length xs"
    using two [OF that] le_val_lt [of "take 2 xs"] that
    by (simp add: word_unat_eq_iff unsigned_ucast_eq unat_of_nat take_bit_eq_mod)
  have three: "take 3 xs = [xs ! 0, xs ! 1, xs ! 2]" if "3 \<le> length xs"
    using that by (auto simp: numeral_eq_Suc Suc_le_length_iff)
  consider (one) "x < 0xfb" | (fc) "x = 0xfc" | (fd) "x = 0xfd" | (fe) "x = 0xfe"
    | (bad) "\<not> x < 0xfb" "x \<noteq> 0xfc" "x \<noteq> 0xfd" "x \<noteq> 0xfe" by blast
  then show ?thesis
  proof cases
    case one
    then show ?thesis by (simp add: Cons readLenEncInt_def lenenc_width_def index_def)
  next
    case fc
    then show ?thesis
      by (simp add: Cons readLenEncInt_def lenenc_width_def go_access two')
  next
    case fd
    then show ?thesis
      by (simp add: Cons readLenEncInt_def lenenc_width_def index_def or3_word three del: le_val.simps)
  next
    case fe
    then show ?thesis by (simp add: Cons readLenEncInt_def lenenc_width_def go_access)
  next
    case bad
    then show ?thesis by (simp add: Cons readLenEncInt_def lenenc_width_def index_def)
  qed
qed

text \<open>The canonical encoding.\<close>

definition lenenc :: "nat \<Rightarrow> bytes" where
  "lenenc n =
     (if n < 251 then [of_nat n]
      else if n < 2 ^ 16 then 0xfc # le_bytes 2 n
      else if n < 2 ^ 24 then 0xfd # le_bytes 3 n
      else 0xfe # le_bytes 8 n)"

lemma of_nat_byte_less: "n < 251 \<Longrightarrow> (of_nat n :: byte) < 0xfb"
  by (simp add: word_less_nat_alt unat_of_nat_byte)

lemma ucast_small: "n < 251 \<Longrightarrow> (ucast (of_nat n :: byte) :: 64 word) = of_nat n"
  by (simp only: ucast_byte_of_nat unat_of_nat_byte) simp

lemma readLenEncInt_lenenc:
  assumes "n < 2 ^ 64"
  shows "readLenEncInt (lenenc n @ r) = Some (of_nat n, length (lenenc n), True)"
  using assms
  by (auto simp: lenenc_def readLenEncInt_eq lenenc_width_def of_nat_byte_less ucast_small
      le_val_bytes)

lemma readLenEncInt_bound:
  "readLenEncInt b = Some (v, n, ok) \<Longrightarrow> n \<le> length b \<and> (ok \<longleftrightarrow> 0 < n) \<and> n \<le> 9"
  by (auto simp: readLenEncInt_eq lenenc_width_def split: if_splits)

lemma readLenEncInt_total: "\<exists>v n ok. readLenEncInt b = Some (v, n, ok)"
  unfolding readLenEncInt_eq by (auto split: if_split)

text \<open>Decoding looks at the announced bytes only.\<close>

lemma readLenEncInt_prefix:
  assumes "readLenEncInt b = Some (v, n, True)"
  shows "readLenEncInt (take n b) = Some (v, n, True)"
proof -
  from assms have b: "b \<noteq> []" and n: "n = lenenc_width (hd b)" "0 < n" "n \<le> length b"
    by (auto simp: readLenEncInt_eq split: if_splits)
  then obtain x xs where "b = x # xs" by (cases b) auto
  moreover obtain m where "n = Suc m" using n(2) not0_implies_Suc by blast
  moreover note n
  ultimately show ?thesis using assms
    by (auto simp: readLenEncInt_eq min_def split: if_splits)
qed

lemma readLenEncInt_extend:
  assumes "readLenEncInt a = Some (v, length a, True)"
  shows "readLenEncInt (a @ r) = Some (v, length a, True)"
proof -
  from assms have "a \<noteq> []" by (auto simp: readLenEncInt_eq split: if_splits)
  then obtain x xs where "a = x # xs" by (cases a) auto
  with assms show ?thesis by (auto simp: readLenEncInt_eq split: if_splits)
qed

section \<open>Properties\<close>

text \<open>
  Round trip of length-encoded integers: every value below \<open>2 ^ 64\<close> is decoded from its canonical
  encoding, whatever follows it, and exactly its bytes are consumed.
\<close>

theorem lenenc_round_trip:
  assumes "n < 2 ^ 64"
  shows "\<exists>v. readLenEncInt (lenenc n @ r) = Some (v, length (lenenc n), True) \<and> unat v = n"
  using assms readLenEncInt_lenenc [OF assms, of r] by (simp add: unat_of_nat)

theorem lenenc_round_trip_witness:
  "\<exists>v. readLenEncInt ([0xfc, 1, 1] @ [9]) = Some (v, 3, True) \<and> unat v = 257"
proof -
  have "le_bytes 2 257 = [1, 1]" unfolding numeral_2_eq_2 le_bytes.simps by simp
  then have "lenenc 257 = [0xfc, 1, 1]" by (simp add: lenenc_def)
  with lenenc_round_trip [of 257 "[9]"] show ?thesis by (simp add: numeral_3_eq_3)
qed

definition complete_lenenc :: "bytes \<Rightarrow> 64 word \<Rightarrow> bool" where
  "complete_lenenc a v \<longleftrightarrow> readLenEncInt a = Some (v, length a, True)"

lemma readLenEncInt_split:
  assumes "readLenEncInt b = Some (v, n, True)"
  shows "complete_lenenc (take n b) v"
  using readLenEncInt_prefix [OF assms] readLenEncInt_bound [OF assms]
  by (simp add: complete_lenenc_def min_def)

lemma ExtractQuery_attrs:
  "ExtractQuery payload True = Some (sql, True) \<longleftrightarrow>
     (\<exists>a b k. payload = ComQuery # a @ b @ bytes_of sql \<and> complete_lenenc a 0 \<and> complete_lenenc b k)"
    (is "?L \<longleftrightarrow> ?R")
proof
  assume L: ?L
  then obtain body where p: "payload = ComQuery # body"
    by (cases payload) (auto simp: ExtractQuery_def index_def split: if_splits)
  obtain v n ok where r1: "readLenEncInt body = Some (v, n, ok)"
    using readLenEncInt_total by blast
  with readLenEncInt_bound [OF r1] L p have n: "n \<le> length body" and ok: "ok"
    by (auto simp: ExtractQuery_def go_access split: if_splits)
  obtain k m ok' where r2: "readLenEncInt (drop n body) = Some (k, m, ok')"
    using readLenEncInt_total by blast
  with readLenEncInt_bound [OF r2] L p r1 n ok
  have "ok'" "v = 0" "sql = str_of (drop m (drop n body))"
    by (auto simp: ExtractQuery_def go_access word_gt_0 split: if_splits)
  moreover have "body = take n body @ take m (drop n body) @ drop m (drop n body)"
    by (simp only: append_take_drop_id)
  ultimately show ?R
    using p readLenEncInt_split [of body v n] readLenEncInt_split [of "drop n body" k m] r1 r2 ok
    by (intro exI [of _ "take n body"] exI [of _ "take m (drop n body)"] exI [of _ k]) simp
next
  assume ?R
  then obtain a b k where p: "payload = ComQuery # a @ b @ bytes_of sql"
    and a: "readLenEncInt a = Some (0, length a, True)"
    and b: "readLenEncInt b = Some (k, length b, True)"
    by (auto simp: complete_lenenc_def)
  show ?L
    using readLenEncInt_extend [OF a, of "b @ bytes_of sql"] readLenEncInt_extend [OF b, of "bytes_of sql"]
    by (simp add: p ExtractQuery_def go_access)
qed

lemma ExtractQuery_classic:
  "ExtractQuery payload False = Some (sql, True) \<longleftrightarrow> payload = ComQuery # bytes_of sql"
  by (cases payload) (auto simp: ExtractQuery_def go_access)

lemma ExtractQuery_returns: "ExtractQuery payload qa \<noteq> None"
proof (cases payload)
  case Nil
  then show ?thesis by (simp add: ExtractQuery_def)
next
  case (Cons c body)
  obtain v n ok where r1: "readLenEncInt body = Some (v, n, ok)"
    using readLenEncInt_total by blast
  obtain k m ok' where r2: "readLenEncInt (drop n body) = Some (k, m, ok')"
    using readLenEncInt_total by blast
  show ?thesis
    using Cons r1 r2 readLenEncInt_bound [OF r1] readLenEncInt_bound [OF r2]
    by (auto simp: ExtractQuery_def go_access split: if_splits)
qed

text \<open>
  C29: \<open>ExtractQuery\<close> is total and never panics; without query attributes it succeeds exactly on a
  COM_QUERY byte followed by the SQL text; with query attributes exactly when the text is preceded
  by a complete length-encoded parameter count of zero and a complete parameter set count.
\<close>
theorem ExtractQuery_spec:
  "ExtractQuery payload qa \<noteq> None
   \<and> (ExtractQuery payload qa = Some (sql, True) \<longleftrightarrow>
        (if qa then \<exists>a b k. payload = ComQuery # a @ b @ bytes_of sql
                     \<and> complete_lenenc a 0 \<and> complete_lenenc b k
         else payload = ComQuery # bytes_of sql))"
  using ExtractQuery_returns ExtractQuery_attrs ExtractQuery_classic by simp

text \<open>
  \<open>Command.String\<close> gives distinct command bytes distinct names, so a log line identifies the
  command, also for the bytes that have no name of their own.
\<close>

theorem Command_String_inj: "Command_String c = Command_String d \<longleftrightarrow> c = d"
proof
  assume "Command_String c = Command_String d"
  then show "c = d"
    by (auto simp: Command_String_def split: if_splits)
qed simp

lemma Has_iff_bits: "Has c f \<longleftrightarrow> (\<forall>n. bit f n \<longrightarrow> bit c n)"
proof -
  have "c AND f = f \<longleftrightarrow> (\<forall>n. bit (c AND f) n = bit f n)"
    using bit_word_eqI [of "c AND f" f] by auto
  then show ?thesis by (auto simp: Has_def bit_simps)
qed

end
