(* ===== verification/MySQLStmt.thy ===== *)
theory MySQLStmt
  imports MySQLCommand
begin

text \<open>
  Prepared statements of one MySQL connection (\<open>protocol/mysql/stmt.go\<close>): the registry from statement
  id to SQL template, and the extraction of templates and ids from packets. The registry's mutex
  makes every operation atomic, so a concurrent use is an interleaving of the operations of the two
  proxy goroutines; the locale \<open>stmt_store\<close> is the contract those goroutines rely on.
\<close>

section \<open>The registry\<close>

record stmt_registry =
  stmts :: "32 word \<rightharpoonup> string"

definition NewStmtRegistry :: stmt_registry where
  "NewStmtRegistry = \<lparr>stmts = Map.empty\<rparr>"

definition Register :: "stmt_registry \<Rightarrow> 32 word \<Rightarrow> string \<Rightarrow> stmt_registry" where
  "Register r i sql = r\<lparr>stmts := (stmts r)(i \<mapsto> sql)\<rparr>"

text \<open>The pair of Go's comma-ok lookup: the zero value and False for a missing key.\<close>

definition Lookup :: "stmt_registry \<Rightarrow> 32 word \<Rightarrow> string \<times> bool" where
  "Lookup r i = (case stmts r i of Some s \<Rightarrow> (s, True) | None \<Rightarrow> ([], False))"

definition Delete :: "stmt_registry \<Rightarrow> 32 word \<Rightarrow> stmt_registry" where
  "Delete r i = r\<lparr>stmts := (stmts r)(i := None)\<rparr>"

section \<open>The contract of a statement store\<close>

datatype stmt_op = OpRegister "32 word" string | OpDelete "32 word"

fun op_id :: "stmt_op \<Rightarrow> 32 word" where
  "op_id (OpRegister i s) = i"
| "op_id (OpDelete i) = i"

text \<open>The abstract answer: the last operation on an id decides.\<close>

definition ops_on :: "32 word \<Rightarrow> stmt_op list \<Rightarrow> stmt_op list" where
  "ops_on i ops = filter (\<lambda>x. op_id x = i) ops"

fun answer :: "stmt_op \<Rightarrow> string \<times> bool" where
  "answer (OpRegister i s) = (s, True)"
| "answer (OpDelete i) = ([], False)"

text \<open>The last operation of one goroutine on an id, if it has any.\<close>

definition last_on :: "32 word \<Rightarrow> stmt_op list \<Rightarrow> stmt_op list" where
  "last_on i ops = (if ops_on i ops = [] then [] else [last (ops_on i ops)])"

lemma ops_on_append [simp]: "ops_on i (xs @ ys) = ops_on i xs @ ops_on i ys"
  by (simp add: ops_on_def)

lemma shuffles_last:
  "zs \<in> shuffles xs ys \<Longrightarrow> zs \<noteq> [] \<Longrightarrow>
     xs \<noteq> [] \<and> last zs = last xs \<or> ys \<noteq> [] \<and> last zs = last ys"
proof (induction xs ys arbitrary: zs rule: shuffles.induct)
  case (3 x xs y ys)
  from 3(3) consider ws where "zs = x # ws" "ws \<in> shuffles xs (y # ys)"
    | ws where "zs = y # ws" "ws \<in> shuffles (x # xs) ys" by auto
  then show ?case
  proof cases
    case 1
    then have "ws \<noteq> []" by auto
    with 1 3(1) [OF 1(2)] show ?thesis by auto
  next
    case 2
    then have "ws \<noteq> []" by auto
    with 2 3(2) [OF 2(2)] show ?thesis by auto
  qed
qed auto

lemma append_in_shuffles: "xs @ ys \<in> shuffles xs ys" "ys @ xs \<in> shuffles xs ys"
proof -
  show a: "xs @ ys \<in> shuffles xs ys" for xs ys :: "'a list"
    by (induction xs) (auto intro: Cons_in_shuffles_leftI)
  from a [of ys xs] show "ys @ xs \<in> shuffles xs ys" by (simp only: shuffles_commutes)
qed

text \<open>Running operations on any store.\<close>

fun run_ops ::
  "('r \<Rightarrow> 32 word \<Rightarrow> string \<Rightarrow> 'r) \<Rightarrow> ('r \<Rightarrow> 32 word \<Rightarrow> 'r) \<Rightarrow> 'r \<Rightarrow> stmt_op list \<Rightarrow> 'r"
where
  "run_ops reg del r [] = r"
| "run_ops reg del r (OpRegister i s # ops) = run_ops reg del (reg r i s) ops"
| "run_ops reg del r (OpDelete i # ops) = run_ops reg del (del r i) ops"

locale stmt_store =
  fixes new_store :: "'r"
    and register :: "'r \<Rightarrow> 32 word \<Rightarrow> string \<Rightarrow> 'r"
    and lookup :: "'r \<Rightarrow> 32 word \<Rightarrow> string \<times> bool"
    and delete :: "'r \<Rightarrow> 32 word \<Rightarrow> 'r"
  assumes lookup_new: "lookup new_store i = ([], False)"
    and lookup_register: "lookup (register r i s) j = (if j = i then (s, True) else lookup r j)"
    and lookup_delete: "lookup (delete r i) j = (if j = i then ([], False) else lookup r j)"
begin

lemma lookup_run_ops:
  "lookup (run_ops register delete r ops) i =
     (if ops_on i ops = [] then lookup r i else answer (last (ops_on i ops)))"
proof (induction ops arbitrary: r)
  case (Cons x ops)
  then show ?case
    by (cases x) (auto simp: lookup_register lookup_delete ops_on_def)
qed (simp add: ops_on_def)

text \<open>
  The answers that are possible under the interleavings of two sequences of operations: that of the last
  operation on the id in either sequence.
\<close>

lemma lookup_interleaved:
  "(\<lambda>zs. lookup (run_ops register delete new_store zs) i) ` shuffles xs ys =
     (if last_on i xs @ last_on i ys = [] then {([], False)}
      else answer ` set (last_on i xs @ last_on i ys))"
    (is "?f ` _ = ?R")
proof (intro equalityI subsetI)
  fix a assume "a \<in> ?f ` shuffles xs ys"
  then obtain zs where zs: "zs \<in> shuffles xs ys" "a = ?f zs" by auto
  have "ops_on i zs \<in> shuffles (ops_on i xs) (ops_on i ys)"
    using zs(1) unfolding ops_on_def by (metis filter_shuffles imageI)
  with shuffles_last [OF this] zs(2) show "a \<in> ?R"
    by (cases "ops_on i zs = []") (auto simp: lookup_run_ops lookup_new last_on_def)
next
  fix a assume a: "a \<in> ?R"
  have f: "?f zs = (if ops_on i zs = [] then ([], False) else answer (last (ops_on i zs)))" for zs
    by (simp only: lookup_run_ops lookup_new)
  have "a = ?f (xs @ ys) \<or> a = ?f (ys @ xs)"
    unfolding f using a by (cases "ops_on i xs = []"; cases "ops_on i ys = []") (auto simp: last_on_def)
  then show "a \<in> ?f ` shuffles xs ys" 
    by (elim disjE) (rule image_eqI, assumption, rule append_in_shuffles)+
qed

end

interpretation registry: stmt_store NewStmtRegistry Register Lookup Delete
  by unfold_locales (auto simp: NewStmtRegistry_def Register_def Lookup_def Delete_def)

section \<open>Statement packets\<close>

definition ExtractPrepareSQL :: "bytes \<Rightarrow> (string \<times> bool) option" where
  "ExtractPrepareSQL payload =
     (if length payload < 2 then Some ([], False)
      else do {
        c \<leftarrow> index payload 0;
        if c \<noteq> ComStmtPrepare then Some ([], False)
        else do { b \<leftarrow> slice_from payload 1; Some (str_of b, True) }
      })"

definition ParseStmtPrepareOK :: "bytes \<Rightarrow> (32 word \<times> bool) option" where
  "ParseStmtPrepareOK payload =
     (if length payload < 12 then Some (0, False)
      else do {
        c \<leftarrow> index payload 0;
        if c \<noteq> 0x00 then Some (0, False)
        else do { b \<leftarrow> slice payload 1 5; v \<leftarrow> LE_Uint32 b; Some (v, True) }
      })"

definition ExtractStmtExecuteID :: "bytes \<Rightarrow> (32 word \<times> bool) option" where
  "ExtractStmtExecuteID payload =
     (if length payload < 10 then Some (0, False)
      else do {
        c \<leftarrow> index payload 0;
        if c \<noteq> ComStmtExecute then Some (0, False)
        else do { b \<leftarrow> slice payload 1 5; v \<leftarrow> LE_Uint32 b; Some (v, True) }
      })"

definition ExtractStmtCloseID :: "bytes \<Rightarrow> (32 word \<times> bool) option" where
  "ExtractStmtCloseID payload =
     (if length payload < 5 then Some (0, False)
      else do {
        c \<leftarrow> index payload 0;
        if c \<noteq> ComStmtClose then Some (0, False)
        else do { b \<leftarrow> slice payload 1 5; v \<leftarrow> LE_Uint32 b; Some (v, True) }
      })"

lemmas stmt_packet_defs =
  ExtractPrepareSQL_def ParseStmtPrepareOK_def ExtractStmtExecuteID_def ExtractStmtCloseID_def

text \<open>The statement id sits behind the first byte.\<close>

lemma id_field:
  "slice (c # LE_PutUint32 v @ r) (Suc 0) 5 = Some (LE_PutUint32 v)"
  by (simp add: slice_def)

lemma LE_Uint32_exact [simp]: "LE_Uint32 (LE_PutUint32 v) = Some v"
  using LE_Uint32_Put [of v "[]"] by simp

lemma prepare_packet:
  "sql \<noteq> [] \<Longrightarrow> ExtractPrepareSQL (ComStmtPrepare # bytes_of sql) = Some (sql, True)"
  by (cases "length sql") (simp_all add: ExtractPrepareSQL_def go_access)

lemma prepare_ok_packet:
  "7 \<le> length r \<Longrightarrow> ParseStmtPrepareOK (0 # LE_PutUint32 v @ r) = Some (v, True)"
  by (simp add: ParseStmtPrepareOK_def id_field index_def)

lemma execute_packet:
  "5 \<le> length r \<Longrightarrow> ExtractStmtExecuteID (ComStmtExecute # LE_PutUint32 v @ r) = Some (v, True)"
  by (simp add: ExtractStmtExecuteID_def id_field index_def)

lemma close_packet: "ExtractStmtCloseID (ComStmtClose # LE_PutUint32 v @ r) = Some (v, True)"
  by (simp add: ExtractStmtCloseID_def id_field index_def)

lemma stmt_packets_return:
  "ExtractPrepareSQL p \<noteq> None" "ParseStmtPrepareOK p \<noteq> None"
  "ExtractStmtExecuteID p \<noteq> None" "ExtractStmtCloseID p \<noteq> None"
  by (auto simp: stmt_packet_defs go_access)

section \<open>Properties\<close>

text \<open>
  C22: what the registry answers under the interleavings of two goroutines, whatever ids they share. For every
  id the set of possible answers is exactly: the answer of the last operation on it in the one sequence and
  that of the last operation on it in the other (the registered template, or none after a deletion), and only
  \<open>absent\<close> when neither touches it. So no operation is lost, none is applied twice or out of its
  goroutine's order, and a race on an id has at most the two outcomes of its two last operations.
\<close>

theorem registry_interleaving:
  "(\<lambda>zs. Lookup (run_ops Register Delete NewStmtRegistry zs) i) ` shuffles xs ys =
     (if last_on i xs @ last_on i ys = [] then {([], False)}
      else answer ` set (last_on i xs @ last_on i ys))"
  by (rule registry.lookup_interleaved)

text \<open>
  C21: the life cycle of a prepared statement, from the bytes of the four packets. The text of the
  COM_STMT_PREPARE packet is stored under the id that the server's reply carries, and whatever the
  registry is asked to do for other statements in between, the COM_STMT_EXECUTE packet with that id, in
  little-endian order behind the command byte, finds exactly this text; after the COM_STMT_CLOSE packet
  with the id it finds nothing, while an execution of any other id finds what it found before.
\<close>

theorem stmt_life_cycle:
  assumes "sql \<noteq> []" and "7 \<le> length cols" and "5 \<le> length params" and "5 \<le> length params'"
    and "ops_on v others = []" and "w \<noteq> v"
  shows "do {
       (text, ok1) \<leftarrow> ExtractPrepareSQL (0x16 # bytes_of sql);
       (i, ok2) \<leftarrow> ParseStmtPrepareOK (0 # LE_PutUint32 v @ cols);
       let r1 = run_ops Register Delete (Register r i text) others;
       (j, ok3) \<leftarrow> ExtractStmtExecuteID (0x17 # LE_PutUint32 v @ params);
       (k, ok4) \<leftarrow> ExtractStmtCloseID (0x19 # LE_PutUint32 v @ rest);
       (l, ok5) \<leftarrow> ExtractStmtExecuteID (0x17 # LE_PutUint32 w @ params');
       let r2 = Delete r1 k;
       Some ([ok1, ok2, ok3, ok4, ok5], Lookup r1 j, Lookup r2 j, Lookup r2 l = Lookup r1 l)
     } = Some ([True, True, True, True, True], (sql, True), ([], False), True)"
  using assms prepare_packet [of sql] prepare_ok_packet [of cols v] execute_packet [of params v]
    close_packet [of v rest] execute_packet [of params' w]
  by (simp add: com_defs registry.lookup_run_ops registry.lookup_register registry.lookup_delete Let_def)

theorem stmt_life_cycle_witness:
  "do {
       (text, ok1) \<leftarrow> ExtractPrepareSQL (0x16 # bytes_of ''SELECT ?'');
       (i, ok2) \<leftarrow> ParseStmtPrepareOK (0 # LE_PutUint32 7 @ [0, 0, 1, 0, 0, 0, 0]);
       let r1 = run_ops Register Delete (Register NewStmtRegistry i text) [OpRegister 8 ''SELECT 8'', OpDelete 9];
       (j, ok3) \<leftarrow> ExtractStmtExecuteID (0x17 # LE_PutUint32 7 @ [0, 1, 0, 0, 0]);
       (k, ok4) \<leftarrow> ExtractStmtCloseID (0x19 # LE_PutUint32 7 @ []);
       (l, ok5) \<leftarrow> ExtractStmtExecuteID (0x17 # LE_PutUint32 8 @ [0, 1, 0, 0, 0]);
       let r2 = Delete r1 k;
       Some ([ok1, ok2, ok3, ok4, ok5], Lookup r1 j, Lookup r2 j, Lookup r2 l = Lookup r1 l)
     } = Some ([True, True, True, True, True], (''SELECT ?'', True), ([], False), True)"
  by (rule stmt_life_cycle) (simp_all add: ops_on_def)

end
