(* ===== verification/MySQLHandshake.thy ===== *)
theory MySQLHandshake
  imports MySQLCommand
begin

text \<open>
  The client's handshake response (\<open>protocol/mysql/handshake.go\<close>): capability flags, user and
  database. The offset of the database is computed from a length the client sends, in Go's 64-bit
  \<open>int\<close>, so offsets here are integers with the wrap-around of \<open>int64\<close> written out, and a slice with a
  negative offset is the panic None.
\<close>

section \<open>Offsets\<close>

text \<open>The value of a 64-bit signed integer after wrap-around.\<close>

definition int64 :: "int \<Rightarrow> int" where
  "int64 x = signed_take_bit 63 x"

text \<open>\<open>payload[pos:]\<close>, \<open>payload[lo:hi]\<close> and \<open>payload[pos]\<close> with signed offsets.\<close>

definition islice_from :: "'a list \<Rightarrow> int \<Rightarrow> 'a list option" where
  [go_access]: "islice_from xs pos = (if pos < 0 then None else slice_from xs (nat pos))"

definition islice :: "'a list \<Rightarrow> int \<Rightarrow> int \<Rightarrow> 'a list option" where
  [go_access]: "islice xs lo hi = (if lo < 0 \<or> hi < 0 then None else slice xs (nat lo) (nat hi))"

definition iindex :: "'a list \<Rightarrow> int \<Rightarrow> 'a option" where
  [go_access]: "iindex xs i = (if i < 0 then None else index xs (nat i))"

text \<open>\<open>bytes.IndexByte\<close>: the first position of a byte, or -1.\<close>

definition IndexByte :: "bytes \<Rightarrow> byte \<Rightarrow> int" where
  "IndexByte b c =
     (let n = length (takeWhile (\<lambda>x. x \<noteq> c) b) in if n < length b then int n else -1)"

section \<open>Parsing\<close>

definition ClientConnectWithDB :: capabilities where "ClientConnectWithDB = push_bit 3 1"
definition ClientSecureConnection :: capabilities where "ClientSecureConnection = push_bit 15 1"
definition ClientPluginAuthLenencClientData :: capabilities where
  "ClientPluginAuthLenencClientData = push_bit 21 1"
definition ClientPluginAuth :: capabilities where "ClientPluginAuth = push_bit 19 1"

record HandshakeInfo =
  Caps :: capabilities
  Username :: string
  Database :: string

definition zero_info :: HandshakeInfo where
  "zero_info = \<lparr>Caps = 0, Username = [], Database = []\<rparr>"

text \<open>
  The offset behind the auth response that starts at \<open>pos\<close>: the inner None is the return with
  \<open>ok=false\<close>, the outer one a panic.
\<close>

definition skip_auth :: "capabilities \<Rightarrow> bytes \<Rightarrow> int \<Rightarrow> int option option" where
  "skip_auth caps payload pos =
     (if Has caps ClientPluginAuthLenencClientData then do {
        rest \<leftarrow> islice_from payload pos;
        (authLen, n, ok2) \<leftarrow> readLenEncInt rest;
        if \<not> ok2 then Some None
        else Some (Some (int64 (pos + int64 (int n + sint authLen))))
      }
      else if Has caps ClientSecureConnection then
        (if int (length payload) \<le> pos then Some None
         else do {
           b \<leftarrow> iindex payload pos;
           Some (Some (pos + (1 + int (unat b))))
         })
      else do {
        rest \<leftarrow> islice_from payload pos;
        let end = IndexByte rest 0;
        if end < 0 then Some (Some (int (length payload)))
        else Some (Some (pos + (end + 1)))
      })"

text \<open>The database name at \<open>pos\<close>: up to its NUL, or to the end of the payload.\<close>

definition read_database :: "bytes \<Rightarrow> int \<Rightarrow> string option" where
  "read_database payload pos = do {
     rest \<leftarrow> islice_from payload pos;
     let end = IndexByte rest 0;
     if 0 \<le> end then do { b \<leftarrow> islice payload pos (pos + end); Some (str_of b) }
     else do { b \<leftarrow> islice_from payload pos; Some (str_of b) }
   }"

definition ParseHandshakeResponse :: "bytes \<Rightarrow> (HandshakeInfo \<times> bool) option" where
  "ParseHandshakeResponse payload =
     (if length payload < 32 then Some (zero_info, False)
      else do {
        b \<leftarrow> slice payload 0 4;
        caps \<leftarrow> LE_Uint32 b;
        let info = zero_info\<lparr>Caps := caps\<rparr>;
        if length payload = 32 then Some (info, True)
        else do {
          let pos = 32;
          rest \<leftarrow> islice_from payload pos;
          let end = IndexByte rest 0;
          if end < 0 then Some (info, False)
          else do {
            name \<leftarrow> islice payload pos (pos + end);
            let info = info\<lparr>Username := str_of name\<rparr>;
            let pos = pos + (end + 1);
            after \<leftarrow> skip_auth caps payload pos;
            (case after of
               None \<Rightarrow> Some (info, False)
             | Some pos \<Rightarrow>
                 if Has caps ClientConnectWithDB \<and> pos < int (length payload)
                 then do {
                   db \<leftarrow> read_database payload pos;
                   Some (info\<lparr>Database := db\<rparr>, True)
                 }
                 else Some (info, True))
          }
        }
      })"

section \<open>Facts about the parts\<close>

lemma IndexByte_range: "IndexByte b c = -1 \<or> 0 \<le> IndexByte b c \<and> IndexByte b c < int (length b)"
  by (simp add: IndexByte_def Let_def)

lemma IndexByte_field:
  assumes "0 \<notin> set s"
  shows "IndexByte (s @ 0 # r) 0 = int (length s)"
proof -
  have "takeWhile (\<lambda>b. b \<noteq> 0) (s @ 0 # r) = s"
    using assms by (subst takeWhile_append2) auto
  then show ?thesis by (simp add: IndexByte_def)
qed

lemma IndexByte_absent: "0 \<notin> set b \<Longrightarrow> IndexByte b 0 = -1"
proof -
  assume "0 \<notin> set b"
  then have "length (takeWhile (\<lambda>x. x \<noteq> 0) b) = length b" by (induction b) auto
  then show ?thesis by (simp add: IndexByte_def)
qed

lemma islice_from_append [simp]: "islice_from (a @ r) (int (length a)) = Some r"
  by (simp add: islice_from_def slice_from_def)

lemma islice_append [simp]:
  "islice (a @ s @ r) (int (length a)) (int (length a) + int (length s)) = Some s"
  by (simp add: islice_def nat_add_distrib)

lemma int64_id: "- (2 ^ 63) \<le> x \<Longrightarrow> x < 2 ^ 63 \<Longrightarrow> int64 x = x"
  by (simp add: int64_def signed_take_bit_int_eq_self)

lemma sint_of_nat64: "n < 2 ^ 63 \<Longrightarrow> sint (of_nat n :: 64 word) = int n"
  by (simp add: signed_of_nat signed_take_bit_int_eq_self)

lemma read_database_append:
  assumes "0 \<notin> set db"
  shows "read_database (a @ db @ 0 # r) (int (length a)) = Some (str_of db)"
  using islice_append [of a db "0 # r"] by (simp add: read_database_def IndexByte_field [OF assms])

lemma read_database_returns:
  assumes "0 \<le> pos" and "pos < int (length p)"
  shows "read_database p pos \<noteq> None"
proof -
  obtain n where n: "pos = int n" "n < length p" using assms by (metis nonneg_int_cases of_nat_less_iff)
  show ?thesis
  proof (cases "0 \<le> IndexByte (drop n p) 0")
    case True
    then obtain k where "IndexByte (drop n p) 0 = int k" by (metis nonneg_int_cases)
    moreover from this have "k < length p - n"
      using IndexByte_range [of "drop n p" 0] by simp
    ultimately show ?thesis using n
      by (simp add: read_database_def go_access nat_add_distrib)
  next
    case False
    then show ?thesis using n by (simp add: read_database_def go_access)
  qed
qed

text \<open>An auth response as a client of each kind sends it.\<close>

definition auth_field :: "capabilities \<Rightarrow> bytes \<Rightarrow> bytes" where
  "auth_field caps a =
     (if Has caps ClientPluginAuthLenencClientData then lenenc (length a) @ a
      else if Has caps ClientSecureConnection then of_nat (length a) # a
      else a @ [0])"

definition auth_ok :: "capabilities \<Rightarrow> bytes \<Rightarrow> bool" where
  "auth_ok caps a \<longleftrightarrow>
     (if Has caps ClientPluginAuthLenencClientData then length a < 2 ^ 61
      else if Has caps ClientSecureConnection then length a < 256
      else 0 \<notin> set a)"

lemma length_lenenc: "length (lenenc n) \<le> 9"
  by (simp add: lenenc_def)

lemma skip_auth_append:
  assumes ok: "auth_ok caps a" and len: "length pre < 2 ^ 61"
  shows "skip_auth caps (pre @ auth_field caps a @ r) (int (length pre)) =
           Some (Some (int (length (pre @ auth_field caps a))))"
proof -
  consider (lenenc) "Has caps ClientPluginAuthLenencClientData"
    | (secure) "\<not> Has caps ClientPluginAuthLenencClientData" "Has caps ClientSecureConnection"
    | (legacy) "\<not> Has caps ClientPluginAuthLenencClientData" "\<not> Has caps ClientSecureConnection"
    by blast
  then show ?thesis
  proof cases
    case lenenc
    then have la: "length a < 2 ^ 61" using ok by (simp add: auth_ok_def)
    have rd: "readLenEncInt (lenenc (length a) @ a @ r) =
        Some (of_nat (length a), length (lenenc (length a)), True)"
      using la by (intro readLenEncInt_lenenc) simp
    have s: "sint (of_nat (length a) :: 64 word) = int (length a)"
      using la by (intro sint_of_nat64) simp
    have "int64 (int (length (lenenc (length a))) + int (length a))
        = int (length (lenenc (length a))) + int (length a)"
      using la length_lenenc [of "length a"] by (intro int64_id) simp_all
    moreover have "int64 (int (length pre) + (int (length (lenenc (length a))) + int (length a)))
        = int (length pre) + (int (length (lenenc (length a))) + int (length a))"
      using la len length_lenenc [of "length a"] by (intro int64_id) simp_all
    ultimately show ?thesis using lenenc rd s
      by (simp add: skip_auth_def auth_field_def)
  next
    case secure
    then have "length a < 256" using ok by (simp add: auth_ok_def)
    then have "int (unat (of_nat (length a) :: byte)) = int (length a)"
      by (simp only: unat_of_nat_byte) simp
    then have "uint (of_nat (length a) :: byte) = int (length a)" by simp
    with secure show ?thesis
      by (simp add: skip_auth_def auth_field_def iindex_def index_def nth_append)
  next
    case legacy
    then have "0 \<notin> set a" using ok by (simp add: auth_ok_def)
    with legacy show ?thesis
      by (simp add: skip_auth_def auth_field_def IndexByte_field Let_def)
  qed
qed

text \<open>Without a length-encoded auth response the offset never turns negative.\<close>

lemma skip_auth_returns:
  "0 \<le> pos \<Longrightarrow> pos \<le> int (length p) \<Longrightarrow> skip_auth caps p pos \<noteq> None"
  using readLenEncInt_total [of "drop (nat pos) p"]
  by (auto simp: skip_auth_def go_access Let_def)

lemma skip_auth_nonneg:
  assumes "skip_auth caps p pos = Some (Some pos')" and "0 \<le> pos"
    and "\<not> Has caps ClientPluginAuthLenencClientData"
  shows "0 \<le> pos'"
  using assms by (auto simp: skip_auth_def Let_def go_access split: if_splits)

section \<open>The parser by cases\<close>

text \<open>The capability word, and the parse of a payload whose user name is terminated.\<close>

definition hs_caps :: "bytes \<Rightarrow> capabilities" where
  "hs_caps payload = of_nat (le_val (take 4 payload))"

lemma ParseHandshakeResponse_user:
  assumes "length pre = 32" and "0 \<notin> set user"
  shows "ParseHandshakeResponse (pre @ user @ 0 # rest) =
    (let info = \<lparr>Caps = hs_caps pre, Username = str_of user, Database = []\<rparr>;
         payload = pre @ user @ 0 # rest
     in do {
       after \<leftarrow> skip_auth (hs_caps pre) payload (int (33 + length user));
       (case after of
          None \<Rightarrow> Some (info, False)
        | Some pos \<Rightarrow>
            if Has (hs_caps pre) ClientConnectWithDB \<and> pos < int (length payload)
            then do { db \<leftarrow> read_database payload pos; Some (info\<lparr>Database := db\<rparr>, True) }
            else Some (info, True))
     })"
proof -
  have "islice_from (pre @ user @ 0 # rest) 32 = Some (user @ 0 # rest)"
    using islice_from_append [of pre "user @ 0 # rest"] assms(1) by simp
  moreover have "islice (pre @ user @ 0 # rest) 32 (32 + int (length user)) = Some user"
    using islice_append [of pre user "0 # rest"] assms(1) by simp
  moreover have "slice (pre @ user @ 0 # rest) 0 4 = Some (take 4 pre)"
    using assms(1) by (simp add: slice_def)
  moreover have "LE_Uint32 (take 4 pre) = Some (hs_caps pre)"
    using assms(1) by (simp add: LE_Uint32_def hs_caps_def)
  ultimately show ?thesis
    using assms
    by (auto simp: ParseHandshakeResponse_def IndexByte_field Let_def zero_info_def add.commute
        intro!: Option.bind_cong split: option.split)
qed

lemma ParseHandshakeResponse_cases:
  obtains (short) "length payload \<le> 32"
  | (unterminated) "0 \<notin> set (drop 32 payload)"
  | (user) pre user rest where "payload = pre @ user @ 0 # rest" "length pre = 32" "0 \<notin> set user"
proof (cases "length payload \<le> 32 \<or> 0 \<notin> set (drop 32 payload)")
  case False
  then obtain user rest where "drop 32 payload = user @ 0 # rest" "0 \<notin> set user"
    by (meson split_list_first)
  moreover have "payload = take 32 payload @ drop 32 payload" by simp
  moreover have "length (take 32 payload) = 32" using False by simp
  ultimately show ?thesis using user by metis
qed (use short unterminated in auto)

lemma ParseHandshakeResponse_no_user:
  assumes "length payload \<le> 32 \<or> 0 \<notin> set (drop 32 payload)"
  shows "ParseHandshakeResponse payload \<noteq> None"
proof -
  have "IndexByte (drop 32 payload) 0 = -1" if "32 < length payload"
    using assms that by (intro IndexByte_absent) simp
  then show ?thesis
    by (auto simp: ParseHandshakeResponse_def go_access Let_def)
qed

section \<open>Properties\<close>

text \<open>
  C9: Round trip of the handshake response: for a user, an auth response of any of the three kinds and
  (with CLIENT_CONNECT_WITH_DB) a database, the parser returns the capability flags, the user and the
  database of the payload that a client builds from them, whatever plugin data follows.
\<close>

theorem handshake_round_trip:
  assumes "length filler = 28" and "no_nul user" and "no_nul db" and "auth_ok caps a"
    and "length user < 2 ^ 60"
    and "with_db = Has caps ClientConnectWithDB"
  shows "ParseHandshakeResponse
           (LE_PutUint32 caps @ filler @ bytes_of user @ [0] @ auth_field caps a
              @ (if with_db then bytes_of db @ [0] else []) @ plugin) =
         Some (\<lparr>Caps = caps, Username = user, Database = if with_db then db else []\<rparr>, True)"
proof -
  let ?pre = "LE_PutUint32 caps @ filler"
  let ?tail = "(if with_db then bytes_of db @ [0] else []) @ plugin"
  let ?head = "?pre @ bytes_of user @ [0]"
  let ?payload = "?pre @ bytes_of user @ 0 # auth_field caps a @ ?tail"
  have pre: "length ?pre = 32" and user: "0 \<notin> set (bytes_of user)" and db: "0 \<notin> set (bytes_of db)"
    using assms by (simp_all add: no_nul_bytes)
  have caps: "hs_caps ?pre = caps"
    using LE_Uint32_Put [of caps filler] by (simp add: hs_caps_def LE_Uint32_def)
  have lh: "length ?head = 33 + length user" "length ?head < 2 ^ 61"
    using assms(1,5) by simp_all
  have skip: "skip_auth caps ?payload (int (33 + length user)) =
      Some (Some (int (length (?head @ auth_field caps a))))"
    using skip_auth_append [OF assms(4) lh(2), of ?tail] lh(1) by simp
  have "read_database ?payload (int (length (?head @ auth_field caps a))) = Some db" if with_db
    using read_database_append [OF db, of "?head @ auth_field caps a" plugin] that by simp
  with skip show ?thesis
    using ParseHandshakeResponse_user [OF pre user, of "auth_field caps a @ ?tail"] assms(6) caps
    by (simp add: Let_def)
qed

theorem handshake_round_trip_witness:
  "ParseHandshakeResponse
     (LE_PutUint32 0x8208 @ replicate 28 0 @ bytes_of ''root'' @ [0] @ auth_field 0x8208 [1, 2, 3]
        @ (bytes_of ''shop'' @ [0]) @ []) =
   Some (\<lparr>Caps = 0x8208, Username = ''root'', Database = ''shop''\<rparr>, True)"
  using handshake_round_trip [of "replicate 28 0" "''root''" "''shop''" "0x8208" "[1, 2, 3]" True "[]"]
  by (simp add: no_nul_def auth_ok_def Has_def ClientPluginAuthLenencClientData_def
      ClientSecureConnection_def ClientConnectWithDB_def)

lemma handshake_panics:
  "ParseHandshakeResponse payload = None \<longleftrightarrow>
     (\<exists>pre user rest pos. payload = pre @ user @ 0 # rest \<and> length pre = 32 \<and> 0 \<notin> set user
        \<and> skip_auth (hs_caps pre) payload (int (33 + length user)) = Some (Some pos)
        \<and> Has (hs_caps pre) ClientConnectWithDB \<and> pos < 0)"
  (is "?L \<longleftrightarrow> ?R")
proof
  assume L: ?L
  show ?R
  proof (cases payload rule: ParseHandshakeResponse_cases)
    case (user pre u rest)
    have "skip_auth (hs_caps pre) payload (int (33 + length u)) \<noteq> None"
      using user by (intro skip_auth_returns) simp_all
    then obtain after where skip: "skip_auth (hs_caps pre) payload (int (33 + length u)) = Some after"
      by auto
    note parse = ParseHandshakeResponse_user [OF user(2,3), of rest, folded user(1)]
    from L skip parse obtain pos where "after = Some pos" "Has (hs_caps pre) ClientConnectWithDB"
      "pos < int (length payload)" "read_database payload pos = None"
      by (cases "read_database payload (the after)")
        (auto simp: Let_def split: option.splits if_splits)
    moreover from this have "pos < 0" using read_database_returns [of pos payload] by linarith
    ultimately show ?thesis using user skip by blast
  qed (use L ParseHandshakeResponse_no_user in auto)
next
  assume ?R
  then obtain pre user rest pos where p: "payload = pre @ user @ 0 # rest" "length pre = 32"
    "0 \<notin> set user" "skip_auth (hs_caps pre) payload (int (33 + length user)) = Some (Some pos)"
    "Has (hs_caps pre) ClientConnectWithDB" "pos < 0" by blast
  have "read_database payload pos = None" using p(6) by (simp add: read_database_def islice_from_def)
  with ParseHandshakeResponse_user [OF p(2,3), of rest, folded p(1)] p show ?L
    by (simp add: Let_def)
qed

text \<open>What the wrap-around does to an offset: only the residue modulo \<open>2 ^ 64\<close> counts.\<close>

lemma int64_shift: "int64 (x + j * 2 ^ 64) = int64 x"
  by (simp add: int64_def signed_take_bit_eq_iff_take_bit_eq take_bit_eq_mod)

lemma int64_residue: "\<exists>j. int64 x = x + j * 2 ^ 64"
proof -
  have "int64 x mod 2 ^ 64 = x mod 2 ^ 64"
    unfolding int64_def take_bit_eq_mod [symmetric] by (simp add: take_bit_signed_take_bit)
  then obtain j where "int64 x - x = 2 ^ 64 * j" by (metis mod_eq_dvd_iff dvdE)
  then have "int64 x = x + j * 2 ^ 64" by simp
  then show ?thesis ..
qed

lemma sint_residue: "\<exists>j. sint (v :: 64 word) = int (unat v) + j * 2 ^ 64"
  using int64_residue [of "uint v"] by (simp add: int64_def sint_uint)

lemma int64_negative:
  assumes "0 \<le> z" and "z < 2 ^ 64 + 2 ^ 63"
  shows "int64 z < 0 \<longleftrightarrow> 2 ^ 63 \<le> z \<and> z < 2 ^ 64"
proof -
  have "int64 z < 0 \<longleftrightarrow> odd (z div 2 ^ 63)"
    by (simp add: int64_def bit_iff_odd)
  moreover consider "z < 2 ^ 63" | "2 ^ 63 \<le> z" "z < 2 ^ 64" | "2 ^ 64 \<le> z" by linarith
  then have "odd (z div 2 ^ 63) \<longleftrightarrow> 2 ^ 63 \<le> z \<and> z < 2 ^ 64"
  proof cases
    case 1
    with assms(1) show ?thesis by (simp add: div_pos_pos_trivial)
  next
    case 2
    then have "z div 2 ^ 63 = 1" by (intro int_div_pos_eq [of _ _ _ "z - 2 ^ 63"]) simp_all
    with 2 show ?thesis by simp
  next
    case 3
    then have "z div 2 ^ 63 = 2" using assms(2) by (intro int_div_pos_eq [of _ _ _ "z - 2 ^ 64"]) simp_all
    with 3 show ?thesis by simp
  qed
  ultimately show ?thesis by simp
qed

lemma readLenEncInt_long:
  assumes "readLenEncInt b = Some (w, n, True)" and "2 ^ 32 \<le> unat w"
  shows "n = 9 \<and> (\<exists>tail. b = 0xfe # le_bytes 8 (unat w) @ tail)"
proof -
  from assms(1) obtain x xs where b: "b = x # xs" and n: "n = lenenc_width x" "n \<noteq> 0" "n \<le> length b"
    and w: "w = of_nat (if x < 0xfb then unat x else le_val (take (n - 1) xs))"
    by (cases b) (auto simp: readLenEncInt_eq split: if_splits)
  have lt: "le_val (take k xs) < 256 ^ k" for k
    by (rule order_less_le_trans [OF le_val_lt]) (rule power_increasing; simp)
  have small: "unat (of_nat m :: 64 word) < 2 ^ 32" if "m < 2 ^ 32" for m
    using that by (simp add: unat_of_nat)
  have x: "x = 0xfe"
  proof (rule ccontr)
    assume "x \<noteq> 0xfe"
    with n(1,2) consider "x < 0xfb" | "\<not> x < 0xfb" "n = 3" | "\<not> x < 0xfb" "n = 4"
      by (auto simp: lenenc_width_def split: if_splits)
    then have "unat w < 2 ^ 32"
    proof cases
      case 1
      then show ?thesis unfolding w by (simp only: if_True, intro small less_trans [OF unat_byte_lt]) simp
    next
      case 2
      then show ?thesis unfolding w using lt [of 2] by (intro small) simp
    next
      case 3
      then show ?thesis unfolding w using lt [of 3] by (intro small) simp
    qed
    with assms(2) show False by simp
  qed
  then have n9: "n = 9" using n(1) by (simp add: lenenc_width_def)
  then have "unat w = le_val (take 8 xs)" using w x lt [of 8] by (simp add: unat_of_nat)
  moreover have "length (take 8 xs) = 8" using n(3) n9 b by simp
  ultimately have "take 8 xs = le_bytes 8 (unat w)" by (metis le_bytes_val)
  then have "b = 0xfe # le_bytes 8 (unat w) @ drop 8 xs" using b x by (metis append_take_drop_id)
  with n9 show ?thesis by blast
qed

text \<open>The offset behind a length-encoded auth response, which is negative only for 8-byte lengths.\<close>

lemma skip_auth_negative:
  assumes "length payload < 2 ^ 62" and "payload = pre @ rest"
  shows "(\<exists>pos. skip_auth caps payload (int (length pre)) = Some (Some pos) \<and> pos < 0)
     \<longleftrightarrow> Has caps ClientPluginAuthLenencClientData
       \<and> (\<exists>v tail. rest = 0xfe # le_bytes 8 v @ tail \<and> v < 2 ^ 64
            \<and> 2 ^ 63 \<le> v + length pre + 9 \<and> v + length pre + 9 < 2 ^ 64)"
proof (cases "Has caps ClientPluginAuthLenencClientData")
  case True
  obtain w n ok where r: "readLenEncInt rest = Some (w, n, ok)" using readLenEncInt_total by blast
  have skip: "skip_auth caps payload (int (length pre)) =
      (if ok then Some (Some (int64 (int (length pre) + int64 (int n + sint w)))) else Some None)"
    using True r by (simp add: skip_auth_def assms(2))
  obtain j k where "sint w = int (unat w) + j * 2 ^ 64" "int64 (int n + sint w) = int n + sint w + k * 2 ^ 64"
    using sint_residue int64_residue by blast
  then have "int (length pre) + int64 (int n + sint w) = int (unat w + length pre + n) + (j + k) * 2 ^ 64"
    by (simp add: algebra_simps)
  then have pos: "int64 (int (length pre) + int64 (int n + sint w)) = int64 (int (unat w + length pre + n))"
    by (simp only: int64_shift)
  have len: "length pre < 2 ^ 62" and n: "n \<le> 9" using assms readLenEncInt_bound [OF r] by simp_all
  have w: "unat w < 2 ^ 64" using unat_word64_lt [of w] by simp
  have neg: "int64 (int (unat w + length pre + n)) < 0 \<longleftrightarrow>
      2 ^ 63 \<le> unat w + length pre + n \<and> unat w + length pre + n < 2 ^ 64"
  proof -
    define K where "K = unat w + length pre + n"
    moreover have "unat w < 18446744073709551616" "length pre < 4611686018427387904" using len by simp_all
    ultimately have "K < 18446744073709551616 + 9223372036854775808" using n by linarith
    then have "int64 (int K) < 0 \<longleftrightarrow> 2 ^ 63 \<le> K \<and> K < 2 ^ 64" using int64_negative [of "int K"] by simp
    then show ?thesis unfolding K_def .
  qed
  show ?thesis
  proof
    assume "\<exists>pos. skip_auth caps payload (int (length pre)) = Some (Some pos) \<and> pos < 0"
    then have ok and big: "2 ^ 63 \<le> unat w + length pre + n" "unat w + length pre + n < 2 ^ 64"
      using skip pos neg by (auto split: if_splits)
    then have "2 ^ 32 \<le> unat w" using len n by simp
    with r \<open>ok\<close> readLenEncInt_long have "n = 9" "\<exists>tail. rest = 0xfe # le_bytes 8 (unat w) @ tail" by auto
    then show "Has caps ClientPluginAuthLenencClientData
       \<and> (\<exists>v tail. rest = 0xfe # le_bytes 8 v @ tail \<and> v < 2 ^ 64
            \<and> 2 ^ 63 \<le> v + length pre + 9 \<and> v + length pre + 9 < 2 ^ 64)"
      using True big w by blast
  next
    assume "Has caps ClientPluginAuthLenencClientData
       \<and> (\<exists>v tail. rest = 0xfe # le_bytes 8 v @ tail \<and> v < 2 ^ 64
            \<and> 2 ^ 63 \<le> v + length pre + 9 \<and> v + length pre + 9 < 2 ^ 64)"
    then obtain v tail where v: "rest = 0xfe # le_bytes 8 v @ tail" "v < 2 ^ 64"
      "2 ^ 63 \<le> v + length pre + 9" "v + length pre + 9 < 2 ^ 64" by blast
    from v(1,2) have "readLenEncInt rest = Some (of_nat v, 9, True)"
      by (simp add: readLenEncInt_eq lenenc_width_def le_val_bytes)
    with r have "w = of_nat v" "n = 9" ok by simp_all
    moreover from v(2) have "unat (of_nat v :: 64 word) = v" by (simp add: unat_of_nat)
    ultimately show "\<exists>pos. skip_auth caps payload (int (length pre)) = Some (Some pos) \<and> pos < 0"
      using skip pos neg v(3,4) by simp
  qed
next
  case False
  then show ?thesis using skip_auth_nonneg [of caps payload "int (length pre)"] by fastforce
qed

lemma Has_push_bit: "n < 32 \<Longrightarrow> Has c (push_bit n 1) \<longleftrightarrow> bit c n"
  by (auto simp: Has_iff_bits bit_simps)

lemma caps_bits:
  "Has (hs_caps pre) ClientPluginAuthLenencClientData \<longleftrightarrow> bit (le_val (take 4 pre)) 21"
  "Has (hs_caps pre) ClientConnectWithDB \<longleftrightarrow> bit (le_val (take 4 pre)) 3"
  unfolding ClientPluginAuthLenencClientData_def ClientConnectWithDB_def hs_caps_def
  by (subst Has_push_bit; simp add: bit_simps)+

text \<open>
  C10: which payloads make the parser panic, in terms of their bytes. It panics exactly on a payload with
  the capability bits 21 (CLIENT_PLUGIN_AUTH_LENENC_CLIENT_DATA) and 3 (CLIENT_CONNECT_WITH_DB), a user
  name with its NUL, and behind it the byte 0xfe with an 8-byte little-endian auth length \<open>v\<close> that takes
  the offset of the database, \<open>v\<close> plus the 42 bytes and the user name in front of it, into the upper
  half of the 64-bit range, where Go's \<open>int\<close> is negative: at least \<open>2 ^ 63\<close> and below \<open>2 ^ 64\<close>. Lengths
  beyond that wrap around to a valid offset. On every other payload (of fewer than \<open>2 ^ 62\<close> bytes) it
  returns.
\<close>

theorem handshake_panic_iff:
  assumes "length payload < 2 ^ 62"
  shows "ParseHandshakeResponse payload = None \<longleftrightarrow>
     (\<exists>pre user v tail. payload = pre @ user @ 0 # 0xfe # le_bytes 8 v @ tail
        \<and> length pre = 32 \<and> 0 \<notin> set user
        \<and> bit (le_val (take 4 pre)) 21 \<and> bit (le_val (take 4 pre)) 3
        \<and> v < 2 ^ 64 \<and> 2 ^ 63 \<le> v + 42 + length user \<and> v + 42 + length user < 2 ^ 64)"
    (is "?L \<longleftrightarrow> ?R")
proof -
  have key: "(\<exists>pos. skip_auth (hs_caps pre) payload (int (33 + length user)) = Some (Some pos) \<and> pos < 0)
     \<longleftrightarrow> Has (hs_caps pre) ClientPluginAuthLenencClientData
       \<and> (\<exists>v tail. rest = 0xfe # le_bytes 8 v @ tail \<and> v < 2 ^ 64
            \<and> 2 ^ 63 \<le> v + 42 + length user \<and> v + 42 + length user < 2 ^ 64)"
    if "payload = pre @ user @ 0 # rest" "length pre = 32" for pre user rest
    using skip_auth_negative [OF assms, of "pre @ user @ [0]" rest "hs_caps pre"] that by simp
  show ?thesis unfolding handshake_panics using key caps_bits by fastforce
qed

theorem handshake_panic_iff_witness:
  "ParseHandshakeResponse
     ((LE_PutUint32 0x200008 @ replicate 28 0) @ [114] @ 0 # 0xfe # le_bytes 8 (2 ^ 63 - 43) @ [1, 2]) = None"
proof -
  let ?pre = "LE_PutUint32 0x200008 @ replicate 28 (0 :: byte)"
  have "take 4 ?pre = LE_PutUint32 0x200008" by simp
  moreover have "le_val (LE_PutUint32 0x200008) = 0x200008"
    by (simp add: LE_PutUint32_def le_val_bytes)
  ultimately have "bit (le_val (take 4 ?pre)) 21 \<and> bit (le_val (take 4 ?pre)) 3"
    by (simp only: bit_iff_odd) simp
  moreover have "length (?pre @ [114] @ 0 # 0xfe # le_bytes 8 (2 ^ 63 - 43) @ [1, 2]) < 2 ^ 62" by simp
  ultimately show ?thesis
    by (subst handshake_panic_iff)
      (simp_all, intro exI [of _ ?pre] exI [of _ "[114]"] exI [of _ "2 ^ 63 - 43"] exI [of _ "[1, 2]"], simp)
qed

text \<open>
  A client that does not negotiate both CLIENT_PLUGIN_AUTH_LENENC_CLIENT_DATA and
  CLIENT_CONNECT_WITH_DB cannot make the parser panic, whatever bytes it sends.
\<close>

theorem handshake_safe_without_lenenc:
  assumes "\<not> (Has (hs_caps payload) ClientPluginAuthLenencClientData
              \<and> Has (hs_caps payload) ClientConnectWithDB)"
  shows "ParseHandshakeResponse payload \<noteq> None"
proof
  assume "ParseHandshakeResponse payload = None"
  then obtain pre user rest pos where p: "payload = pre @ user @ 0 # rest" "length pre = 32"
    "skip_auth (hs_caps pre) payload (int (33 + length user)) = Some (Some pos)"
    "Has (hs_caps pre) ClientConnectWithDB" "pos < 0"
    unfolding handshake_panics by blast
  have "hs_caps payload = hs_caps pre" using p(1,2) by (simp add: hs_caps_def)
  with assms p(4) have "\<not> Has (hs_caps pre) ClientPluginAuthLenencClientData" by simp
  with skip_auth_nonneg [OF p(3)] p(5) show False by simp
qed

theorem handshake_safe_without_lenenc_witness:
  "ParseHandshakeResponse (LE_PutUint32 0x8208 @ replicate 28 0 @ [114, 0, 255]) \<noteq> None"
proof (rule handshake_safe_without_lenenc)
  have "hs_caps (LE_PutUint32 0x8208 @ replicate 28 0 @ [114, 0, 255]) = 0x8208"
    using LE_Uint32_Put [of "0x8208" "replicate 28 0 @ [114, 0, 255]"]
    by (simp add: hs_caps_def LE_Uint32_def)
  then show "\<not> (Has (hs_caps (LE_PutUint32 0x8208 @ replicate 28 0 @ [114, 0, 255]))
                ClientPluginAuthLenencClientData
              \<and> Has (hs_caps (LE_PutUint32 0x8208 @ replicate 28 0 @ [114, 0, 255]))
                ClientConnectWithDB)"
    by (simp add: Has_def ClientPluginAuthLenencClientData_def)
qed

text \<open>
  A client that negotiates both flags crashes the parser at will: an 8-byte auth length with the
  sign bit set (more negative than the offset) makes the offset negative, and the slice panics.
\<close>

theorem handshake_crash:
  assumes "length pre = 32" and "0 \<notin> set user" and "length user < 2 ^ 60"
    and "Has (hs_caps pre) ClientPluginAuthLenencClientData"
    and "Has (hs_caps pre) ClientConnectWithDB"
    and "sint (v :: 64 word) < - int (42 + length user)"
  shows "ParseHandshakeResponse (pre @ user @ 0 # 0xfe # le_bytes 8 (unat v) @ rest) = None"
proof -
  let ?rest = "0xfe # le_bytes 8 (unat v) @ rest"
  let ?pos = "int (33 + length user)"
  have "islice_from (pre @ user @ 0 # ?rest) ?pos = Some ?rest"
    using islice_from_append [of "pre @ user @ [0]" ?rest] assms(1) by simp
  moreover have "readLenEncInt ?rest = Some (v, 9, True)"
    using unat_word64_lt [of v] by (simp add: readLenEncInt_eq lenenc_width_def le_val_bytes)
  moreover have lo: "- (2 ^ 63) \<le> sint v"
    using sint_greater_eq [of v] by simp
  have "int64 (9 + sint v) = 9 + sint v"
    using lo assms(6) by (intro int64_id) simp_all
  moreover have "int64 (?pos + (9 + sint v)) = ?pos + (9 + sint v)"
    using lo assms(3,6) by (intro int64_id) simp_all
  ultimately have "skip_auth (hs_caps pre) (pre @ user @ 0 # ?rest) ?pos = Some (Some (?pos + (9 + sint v)))"
    using assms(4) by (simp add: skip_auth_def)
  moreover have "?pos + (9 + sint v) < 0" using assms(6) by simp
  ultimately show ?thesis unfolding handshake_panics using assms(1,2,5) by blast
qed

theorem handshake_crash_witness:
  "ParseHandshakeResponse
     (LE_PutUint32 0x200008 @ replicate 28 0 @ [114] @ 0 # 0xfe # le_bytes 8 (2 ^ 63) @ [1, 2]) = None"
proof -
  have caps: "hs_caps (LE_PutUint32 0x200008 @ replicate 28 0) = 0x200008"
    using LE_Uint32_Put [of "0x200008" "replicate 28 0"] by (simp add: hs_caps_def LE_Uint32_def)
  have "Has (0x200008 :: capabilities) ClientPluginAuthLenencClientData"
    and "Has (0x200008 :: capabilities) ClientConnectWithDB"
    by (simp_all add: Has_def ClientPluginAuthLenencClientData_def ClientConnectWithDB_def)
  with handshake_crash [of "LE_PutUint32 0x200008 @ replicate 28 0" "[114]" "2 ^ 63" "[1, 2]"]
  show ?thesis unfolding caps by simp
qed

text \<open>
  A truncated auth response is accepted: when the announced auth length reaches past the payload,
  the parser still returns \<open>ok=true\<close>, with an empty database although one may have been negotiated,
  so a rule restricted to a database does not see this connection as using it.
\<close>

theorem handshake_truncated_auth_accepted:
  assumes "length pre = 32" and "0 \<notin> set user" and "length user < 2 ^ 60"
    and "Has (hs_caps pre) ClientPluginAuthLenencClientData"
    and "length auth < n" and "n < 2 ^ 60"
  shows "ParseHandshakeResponse (pre @ user @ 0 # lenenc n @ auth) =
           Some (\<lparr>Caps = hs_caps pre, Username = str_of user, Database = []\<rparr>, True)"
proof -
  let ?rest = "lenenc n @ auth"
  let ?pos = "int (33 + length user)"
  let ?l = "int (length (lenenc n))"
  have "islice_from (pre @ user @ 0 # ?rest) ?pos = Some ?rest"
    using islice_from_append [of "pre @ user @ [0]" ?rest] assms(1) by simp
  moreover have "readLenEncInt ?rest = Some (of_nat n, length (lenenc n), True)"
    using assms(6) by (intro readLenEncInt_lenenc) simp
  moreover have "sint (of_nat n :: 64 word) = int n"
    using assms(6) by (intro sint_of_nat64) simp
  moreover have "int64 (?l + int n) = ?l + int n"
    using assms(6) length_lenenc [of n] by (intro int64_id) simp_all
  moreover have "int64 (?pos + (?l + int n)) = ?pos + (?l + int n)"
    using assms(3,6) length_lenenc [of n] by (intro int64_id) simp_all
  ultimately have "skip_auth (hs_caps pre) (pre @ user @ 0 # ?rest) ?pos = Some (Some (?pos + (?l + int n)))"
    using assms(4) by (simp add: skip_auth_def)
  then show ?thesis
    using ParseHandshakeResponse_user [OF assms(1,2), of ?rest] assms(1,5)
    by (simp add: Let_def)
qed

theorem handshake_truncated_auth_accepted_witness:
  "ParseHandshakeResponse ((LE_PutUint32 0x200008 @ replicate 28 0) @ [114] @ 0 # lenenc 20 @ [1, 2]) =
     Some (\<lparr>Caps = 0x200008, Username = ''r'', Database = []\<rparr>, True)"
proof -
  have caps: "hs_caps (LE_PutUint32 0x200008 @ replicate 28 0) = 0x200008"
    using LE_Uint32_Put [of "0x200008" "replicate 28 0"] by (simp add: hs_caps_def LE_Uint32_def)
  have "Has (0x200008 :: capabilities) ClientPluginAuthLenencClientData"
    by (simp add: Has_def ClientPluginAuthLenencClientData_def)
  with handshake_truncated_auth_accepted [of "LE_PutUint32 0x200008 @ replicate 28 0" "[114]" "[1, 2]" 20]
  show ?thesis unfolding caps by (simp add: str_of_def char_of_byte_def char_of_eq_iff)
qed

end
