(* ===== verification/GoIO.thy ===== *)
theory GoIO
  imports Prelude
begin

text \<open>
  The interface \<open>io.Reader\<close>, on which the three packet framers rest, and \<open>io.ReadFull\<close>.

  A reader is a state of any type with a function \<open>read s n\<close>: it is asked for at most \<open>n\<close> bytes and
  returns the bytes it copied, the error, and its next state. The locale \<open>byte_reader\<close> is the
  contract that package io documents: bytes come in order, at most as many as asked for, an error
  only once the bytes are exhausted, and no empty success. \<open>ReadFull\<close> loops over an arbitrary reader,
  so it is a \<open>partial_function\<close>: None is the loop that never returns. Inside the locale it is shown to
  return, and to depend on the reader's remaining bytes and its final error only.
  Two readers are models of the contract here: a network connection that delivers its data in
  segments of any size (\<open>conn_read\<close>), and the flat byte stream (\<open>stream_read\<close>) over which the
  properties of the framers are stated. \<open>TLSUtil\<close> adds the prefixed connection.
\<close>

section \<open>Reading a full buffer\<close>

type_synonym 's reader = "'s \<Rightarrow> nat \<Rightarrow> bytes \<times> go_error option \<times> 's"

text \<open>The loop of \<open>io.ReadAtLeast\<close>: \<open>for n < min && err == nil\<close>.\<close>

partial_function (option) read_loop ::
  "'s reader \<Rightarrow> nat \<Rightarrow> bytes \<Rightarrow> go_error option \<Rightarrow> 's \<Rightarrow> (bytes \<times> go_error option \<times> 's) option"
where
  "read_loop rd m acc err s =
     (if length acc < m \<and> err = None
      then (case rd s (m - length acc) of
              (bs, err', s') \<Rightarrow> read_loop rd m (acc @ bs) err' s')
      else Some (acc, err, s))"

declare read_loop.simps [code]

text \<open>\<open>io.ReadFull(r, buf)\<close> with \<open>len(buf) = m\<close>.\<close>

definition ReadFull ::
  "'s reader \<Rightarrow> nat \<Rightarrow> 's \<Rightarrow> (bytes \<times> go_error option \<times> 's) option"
where
  "ReadFull rd m s = do {
     (acc, err, s') \<leftarrow> read_loop rd m [] None s;
     Some (acc,
           (if m \<le> length acc then None
            else if acc \<noteq> [] \<and> err = Some EOF then Some UnexpectedEOF
            else err),
           s')
   }"

section \<open>The contract of a reader\<close>

locale byte_reader =
  fixes read :: "'s \<Rightarrow> nat \<Rightarrow> bytes \<times> go_error option \<times> 's"
    and contents :: "'s \<Rightarrow> bytes"
    and final :: "'s \<Rightarrow> go_error"
    and ok :: "'s \<Rightarrow> bool"
  assumes read_bytes:
      "ok s \<Longrightarrow> 0 < n \<Longrightarrow> read s n = (bs, e, s') \<Longrightarrow> contents s = bs @ contents s' \<and> length bs \<le> n"
    and read_ok: "ok s \<Longrightarrow> 0 < n \<Longrightarrow> read s n = (bs, e, s') \<Longrightarrow> ok s' \<and> final s' = final s"
    and read_progress: "ok s \<Longrightarrow> 0 < n \<Longrightarrow> read s n = (bs, None, s') \<Longrightarrow> bs \<noteq> []"
    and read_error:
      "ok s \<Longrightarrow> 0 < n \<Longrightarrow> read s n = (bs, Some er, s') \<Longrightarrow> er = final s \<and> contents s' = []"
begin

lemma read_loop_returns:
  assumes "ok s" and "length acc \<le> m"
  shows "\<exists>err s'. read_loop read m acc None s =
           Some (acc @ take (m - length acc) (contents s), err, s')
         \<and> ok s' \<and> final s' = final s \<and> contents s' = drop (m - length acc) (contents s)
         \<and> (length acc + length (contents s) < m \<longrightarrow> err = Some (final s))"
  using assms
proof (induction "m - length acc" arbitrary: acc s rule: less_induct)
  case less
  show ?case
  proof (cases "length acc < m")
    case False
    with less.prems show ?thesis by (simp add: read_loop.simps)
  next
    case True
    obtain bs e s' where r: "read s (m - length acc) = (bs, e, s')"
      by (cases "read s (m - length acc)") auto
    have n: "0 < m - length acc" using True by simp
    note facts = read_bytes [OF less.prems(1) n r] read_ok [OF less.prems(1) n r]
    show ?thesis
    proof (cases e)
      case (Some x)
      with r have r': "read s (m - length acc) = (bs, Some x, s')" by simp
      from read_error [OF less.prems(1) n r'] Some r facts True show ?thesis
        by (simp add: read_loop.simps [of read m acc] read_loop.simps [of read m "acc @ bs"])
    next
      case None
      with r have r': "read s (m - length acc) = (bs, None, s')" by simp
      from read_progress [OF less.prems(1) n r'] have "0 < length bs" by simp
      then have "m - length (acc @ bs) < m - length acc" "length (acc @ bs) \<le> m"
        using True facts by (simp_all del: length_greater_0_conv) linarith+
      from less.hyps [OF this(1) _ this(2), of s'] facts
      have "\<exists>err s''. read_loop read m (acc @ bs) None s' =
              Some ((acc @ bs) @ take (m - length (acc @ bs)) (contents s'), err, s'')
            \<and> ok s'' \<and> final s'' = final s' \<and> contents s'' = drop (m - length (acc @ bs)) (contents s')
            \<and> (length (acc @ bs) + length (contents s') < m \<longrightarrow> err = Some (final s'))"
        by blast
      then show ?thesis using facts None r True
        by (simp add: read_loop.simps [of read m acc] add.assoc)
    qed
  qed
qed

text \<open>
  \<open>ReadFull\<close> on any lawful reader: it returns, takes the first bytes of what is left, and fails with
  the reader's final error, which \<open>io.EOF\<close> becomes \<open>io.ErrUnexpectedEOF\<close> of after a partial read.
\<close>

lemma ReadFull_reader:
  assumes "ok s"
  shows "\<exists>s'. ReadFull read m s =
           Some (take m (contents s),
                 (if m \<le> length (contents s) then None
                  else if contents s \<noteq> [] \<and> final s = EOF then Some UnexpectedEOF
                  else Some (final s)),
                 s')
         \<and> ok s' \<and> final s' = final s \<and> contents s' = drop m (contents s)"
proof -
  from assms obtain err s' where
    "read_loop read m [] None s = Some (take m (contents s), err, s')"
    "ok s'" "final s' = final s" "contents s' = drop m (contents s)"
    "length (contents s) < m \<longrightarrow> err = Some (final s)"
    using read_loop_returns [of s "[]" m] that by auto
  then show ?thesis by (auto simp: ReadFull_def)
qed

end

section \<open>The flat stream\<close>

text \<open>All the bytes still to come, and the error that follows them.\<close>

type_synonym stream = "bytes \<times> go_error"

definition stream_read :: "stream \<Rightarrow> nat \<Rightarrow> bytes \<times> go_error option \<times> stream" where
  "stream_read s n =
     (case s of (bs, e) \<Rightarrow> (take n bs, if bs = [] then Some e else None, (drop n bs, e)))"

interpretation stream: byte_reader stream_read fst snd "\<lambda>_. True"
  by unfold_locales (auto simp: stream_read_def split: if_splits)

lemma ReadFull_stream:
  "ReadFull stream_read m (bs, e) =
     Some (take m bs,
           (if m \<le> length bs then None
            else if bs \<noteq> [] \<and> e = EOF then Some UnexpectedEOF else Some e),
           (drop m bs, e))"
  using stream.ReadFull_reader [where s = "(bs, e)" and m = m] by (auto simp: prod_eq_iff)

text \<open>The simulation: on a lawful reader, \<open>ReadFull\<close> acts as on the flat stream of its contents.\<close>

definition as_stream :: "('s \<Rightarrow> bytes) \<Rightarrow> ('s \<Rightarrow> go_error) \<Rightarrow> 's \<Rightarrow> stream" where
  "as_stream cont fin s = (cont s, fin s)"

context byte_reader
begin

lemma ReadFull_simulates:
  assumes "ok s"
  shows "\<exists>r err s'. ReadFull read m s = Some (r, err, s') \<and> ok s' \<and> final s' = final s
           \<and> ReadFull stream_read m (contents s, final s) =
               Some (r, err, (contents s', final s'))"
  using ReadFull_reader [OF assms, where m = m] by (auto simp: ReadFull_stream)

lemma ReadFull_simE:
  assumes "ok s"
  obtains r err s' where "ReadFull read m s = Some (r, err, s')" "ok s'" "final s' = final s"
    "ReadFull stream_read m (contents s, final s) = Some (r, err, (contents s', final s'))"
  using ReadFull_simulates [OF assms] by blast

end

section \<open>A network connection\<close>

text \<open>
  A TCP connection as a reader sees it: the segments that will arrive, none of them empty, and the
  error after the last one (\<open>io.EOF\<close> on an orderly close). One \<open>Read\<close> delivers at most one segment.
\<close>

record conn =
  segments :: "bytes list"
  close_err :: go_error

definition conn_ok :: "conn \<Rightarrow> bool" where
  "conn_ok c \<longleftrightarrow> [] \<notin> set (segments c)"

definition conn_bytes :: "conn \<Rightarrow> bytes" where
  "conn_bytes c = concat (segments c)"

definition conn_read :: "conn \<Rightarrow> nat \<Rightarrow> bytes \<times> go_error option \<times> conn" where
  "conn_read c n =
     (case segments c of
        [] \<Rightarrow> ([], Some (close_err c), c)
      | b # bs \<Rightarrow> if length b \<le> n then (b, None, c\<lparr>segments := bs\<rparr>)
                  else (take n b, None, c\<lparr>segments := drop n b # bs\<rparr>))"

interpretation conn: byte_reader conn_read conn_bytes close_err conn_ok
  by unfold_locales
    (auto simp: conn_read_def conn_bytes_def conn_ok_def split: list.splits if_splits)

end
