(* ===== verification/PostgresPacket.thy ===== *)
theory PostgresPacket
  imports GoIO
begin

text \<open>
  Framing of the PostgreSQL wire protocol (\<open>protocol/postgres/packet.go\<close>): typed messages with a
  big-endian length that includes itself, untyped startup messages, the SSL request, and the error
  and ready responses the firewall sends to a client.
\<close>

record pg_packet =
  pg_Type :: byte
  pg_Length :: "32 word"
  pg_Payload :: bytes
  pg_Raw :: bytes

section \<open>Reading\<close>

definition pg_ReadPacket :: "'s reader \<Rightarrow> 's \<Rightarrow> ((go_error + pg_packet) \<times> 's) option" where
  "pg_ReadPacket rd s = do {
     (hdr, err, s1) \<leftarrow> ReadFull rd 5 s;
     (case err of
        Some e \<Rightarrow> Some (Inl e, s1)
      | None \<Rightarrow> do {
          lenField \<leftarrow> slice hdr 1 5;
          msgLen \<leftarrow> BE_Uint32 lenField;
          if sint msgLen < 4 \<or> 256 * 1024 * 1024 < sint msgLen
          then Some (Inl (Errorf (''postgres: invalid message length '' @ show_int (sint msgLen))), s1)
          else do {
            let payloadLen = nat (sint msgLen) - 4;
            typ \<leftarrow> index hdr 0;
            if 0 < payloadLen then do {
              (body, err, s2) \<leftarrow> ReadFull rd payloadLen s1;
              (case err of
                 Some e \<Rightarrow> Some (Inl e, s2)
               | None \<Rightarrow> Some (Inr \<lparr>pg_Type = typ, pg_Length = msgLen, pg_Payload = body,
                                  pg_Raw = hdr @ body\<rparr>, s2))
            }
            else Some (Inr \<lparr>pg_Type = typ, pg_Length = msgLen, pg_Payload = [], pg_Raw = hdr\<rparr>, s1)
          }
        })
   }"

text \<open>A startup message: no type byte; the raw bytes with the length field.\<close>

definition ReadStartupBytes :: "'s reader \<Rightarrow> 's \<Rightarrow> ((go_error + bytes) \<times> 's) option" where
  "ReadStartupBytes rd s = do {
     (lenBuf, err, s1) \<leftarrow> ReadFull rd 4 s;
     (case err of
        Some e \<Rightarrow> Some (Inl e, s1)
      | None \<Rightarrow> do {
          v \<leftarrow> BE_Uint32 lenBuf;
          let msgLen = unat v;
          if msgLen < 4 \<or> 10000 < msgLen
          then Some (Inl (Errorf (''postgres: invalid startup message length '' @ show_nat msgLen)), s1)
          else if 4 < msgLen then do {
            (body, err, s2) \<leftarrow> ReadFull rd (msgLen - 4) s1;
            (case err of
               Some e \<Rightarrow> Some (Inl e, s2)
             | None \<Rightarrow> Some (Inr (lenBuf @ body), s2))
          }
          else Some (Inr lenBuf, s1)
        })
   }"

definition IsSSLRequest :: "bytes \<Rightarrow> bool option" where
  "IsSSLRequest raw =
     (if length raw = 8 then do { b \<leftarrow> slice raw 4 8; v \<leftarrow> BE_Uint32 b; Some (v = 80877103) }
      else Some False)"

section \<open>Responses\<close>

text \<open>The buffer of \<open>BuildErrorResponse\<close>, filled position by position.\<close>

definition BuildErrorResponse :: "string \<Rightarrow> bytes option" where
  "BuildErrorResponse message = do {
     let msgBytes = bytes_of message;
     let bodyLen = 7 + 7 + 2 + length msgBytes + 1;
     let totalLen = 1 + 4 + bodyLen;
     let buf = replicate totalLen 0;
     buf \<leftarrow> put buf 0 (byte_of_char CHR ''E'');
     buf \<leftarrow> copy_at buf 1 (BE_PutUint32 (of_nat (4 + bodyLen)));
     let pos = 5;
     buf \<leftarrow> put buf pos (byte_of_char CHR ''S''); let pos = pos + 1;
     buf \<leftarrow> copy_at buf pos (bytes_of ''ERROR'' @ [0]); let pos = pos + 6;
     buf \<leftarrow> put buf pos (byte_of_char CHR ''C''); let pos = pos + 1;
     buf \<leftarrow> copy_at buf pos (bytes_of ''42501'' @ [0]); let pos = pos + 6;
     buf \<leftarrow> put buf pos (byte_of_char CHR ''M''); let pos = pos + 1;
     buf \<leftarrow> copy_at buf pos msgBytes; let pos = pos + length msgBytes;
     buf \<leftarrow> put buf pos 0; let pos = pos + 1;
     put buf pos 0
   }"

definition ReadyForQueryIdle :: bytes where
  "ReadyForQueryIdle = [byte_of_char CHR ''Z'', 0, 0, 0, 5, byte_of_char CHR ''I'']"

section \<open>The framer on a flat stream\<close>

text \<open>The wire form of a message.\<close>

definition pg_frame :: "byte \<Rightarrow> bytes \<Rightarrow> bytes" where
  "pg_frame typ payload = typ # be_bytes 4 (4 + length payload) @ payload"

definition pg_max :: nat where
  "pg_max = 256 * 1024 * 1024"

lemma sint_be4:
  assumes "4 \<le> n" and "n \<le> pg_max"
  shows "BE_Uint32 (be_bytes 4 n) = Some (of_nat n)" and "sint (of_nat n :: 32 word) = int n"
  using assms by (simp_all add: BE_Uint32_def be_val_bytes pg_max_def sint_small_word32)

text \<open>The length field of the header at the front of a stream.\<close>

definition pg_len :: "bytes \<Rightarrow> 32 word" where
  "pg_len bs = of_nat (be_val (take 4 (drop 1 bs)))"

lemma pg_ReadPacket_stream:
  "pg_ReadPacket stream_read (bs, e) = Some (
     if length bs < 5
     then (Inl (if bs \<noteq> [] \<and> e = EOF then UnexpectedEOF else e), ([], e))
     else let n = sint (pg_len bs) in
       if n < 4 \<or> int pg_max < n
       then (Inl (Errorf (''postgres: invalid message length '' @ show_int n)), (drop 5 bs, e))
       else if length bs < 1 + nat n
       then (Inl (if drop 5 bs \<noteq> [] \<and> e = EOF then UnexpectedEOF else e), ([], e))
       else (Inr \<lparr>pg_Type = hd bs, pg_Length = pg_len bs, pg_Payload = take (nat n - 4) (drop 5 bs),
                  pg_Raw = take (1 + nat n) bs\<rparr>, (drop (1 + nat n) bs, e)))"
proof (cases "length bs < 5")
  case True
  then show ?thesis by (simp add: pg_ReadPacket_def ReadFull_stream)
next
  case False
  then obtain t r where bs: "bs = t # r" and r: "4 \<le> length r" by (cases bs) auto
  have fields: "slice (take 5 bs) 1 5 = Some (take 4 r)"
    "BE_Uint32 (take 4 r) = Some (pg_len bs)" "index (take 5 bs) 0 = Some t"
    using r by (simp_all add: bs slice_def BE_Uint32_def pg_len_def index_def)
  let ?n = "sint (pg_len bs)"
  show ?thesis
  proof (cases "?n < 4 \<or> int pg_max < ?n")
    case True
    with False show ?thesis
      by (simp add: pg_ReadPacket_def ReadFull_stream fields [simplified] pg_max_def)
  next
    case valid: False
    obtain m where m: "?n = int (4 + m)"
      using valid by (metis add.commute le_Suc_ex linorder_not_less nonneg_int_cases
          of_nat_le_iff of_nat_numeral order_trans zero_le_numeral)
    have n: "nat ?n + 1 = 5 + m" using m by simp
    then have "take (nat ?n + 1) bs = take 5 bs @ take m (drop 5 bs)"
      by (simp only: take_add)
    moreover have "nat ?n - 4 = m" "drop (nat ?n + 1) bs = drop m (drop 5 bs)"
      "length bs < 1 + nat ?n \<longleftrightarrow> length (drop 5 bs) < m"
      using n False by (simp_all add: add.commute) linarith+
    moreover have "hd bs = t" by (simp add: bs)
    ultimately show ?thesis using valid False
      by (cases "m = 0") (simp_all add: pg_ReadPacket_def ReadFull_stream fields [simplified] pg_max_def
          Let_def)
  qed
qed

lemma pg_frame_split:
  "length (pg_frame t p) = 5 + length p" "hd (pg_frame t p @ r) = t" "pg_frame t p \<noteq> []"
  "drop 5 (pg_frame t p) = p"
  by (simp_all add: pg_frame_def)

lemma pg_ReadPacket_frame:
  assumes "4 + length payload \<le> pg_max"
  shows "pg_ReadPacket stream_read (pg_frame typ payload @ rest, e) =
           Some (Inr \<lparr>pg_Type = typ, pg_Length = of_nat (4 + length payload), pg_Payload = payload,
                      pg_Raw = pg_frame typ payload\<rparr>, (rest, e))"
proof -
  have "BE_Uint32 (be_bytes 4 (4 + length payload)) = Some (pg_len (pg_frame typ payload @ rest))"
    by (simp add: BE_Uint32_def pg_len_def pg_frame_def)
  then have len: "pg_len (pg_frame typ payload @ rest) = of_nat (4 + length payload)"
    and s: "sint (of_nat (4 + length payload) :: 32 word) = int (4 + length payload)"
    using sint_be4 [of "4 + length payload"] assms by auto
  show ?thesis
    using assms unfolding pg_ReadPacket_stream len s
    by (simp add: Let_def pg_frame_split nat_add_distrib del: of_nat_add)
qed

lemma pg_ReadPacket_InrD:
  assumes "pg_ReadPacket stream_read (bs, e) = Some (Inr pkt, (bs', e'))"
  shows "bs = pg_Raw pkt @ bs'" and "pg_Raw pkt = pg_frame (pg_Type pkt) (pg_Payload pkt)"
    and "sint (pg_Length pkt) = int (4 + length (pg_Payload pkt))"
    and "4 + length (pg_Payload pkt) \<le> pg_max" and "e' = e"
proof -
  let ?n = "sint (pg_len bs)"
  have n: "5 \<le> length bs" "4 \<le> ?n" "?n \<le> int pg_max" "1 + nat ?n \<le> length bs"
    and pkt: "pkt = \<lparr>pg_Type = hd bs, pg_Length = pg_len bs,
        pg_Payload = take (nat ?n - 4) (drop 5 bs), pg_Raw = take (1 + nat ?n) bs\<rparr>"
      "bs' = drop (1 + nat ?n) bs" "e' = e"
    using assms by (auto simp: pg_ReadPacket_stream Let_def split: if_splits)
  then show "bs = pg_Raw pkt @ bs'" "e' = e" by simp_all
  obtain m where m: "nat ?n = 4 + m" using n(2) by (metis le_Suc_ex nat_le_iff nat_mono nat_numeral)
  then have lp: "length (pg_Payload pkt) = m" using pkt n by simp
  then show "sint (pg_Length pkt) = int (4 + length (pg_Payload pkt))"
    using pkt m n(2) by simp
  show "4 + length (pg_Payload pkt) \<le> pg_max" using lp m n(3) by simp
  have b: "be_val (take 4 (drop 1 bs)) = 4 + m"
  proof -
    have "be_val (take 4 (drop 1 bs)) < 2 ^ 32"
      using be_val_lt [of "take 4 (drop 1 bs)"] n(1) by simp
    then have "unat (pg_len bs) = be_val (take 4 (drop 1 bs))"
      by (simp add: pg_len_def unat_of_nat)
    moreover have "int (unat (pg_len bs)) = ?n"
      using n(2) sint_nonneg_unat [of "pg_len bs"] by simp
    ultimately show ?thesis using m n(2) by simp
  qed
  have "be_bytes 4 (4 + m) = take 4 (drop 1 bs)"
    using be_bytes_val [of "take 4 (drop 1 bs)"] n(1) by (simp del: One_nat_def add: b)
  moreover obtain t r where "bs = t # r" using n(1) by (cases bs) auto
  ultimately show "pg_Raw pkt = pg_frame (pg_Type pkt) (pg_Payload pkt)"
    using lp pkt(1) m by (simp add: pg_frame_def take_add)
qed

section \<open>Any reader\<close>

context byte_reader
begin

lemma pg_ReadPacket_simulates:
  assumes "ok s"
  shows "\<exists>r s'. pg_ReadPacket read s = Some (r, s') \<and> ok s' \<and> final s' = final s
     \<and> pg_ReadPacket stream_read (contents s, final s) = Some (r, (contents s', final s'))"
proof -
  obtain hdr err s1 where h: "ReadFull read 5 s = Some (hdr, err, s1)" "ok s1" "final s1 = final s"
    "ReadFull stream_read 5 (contents s, final s) = Some (hdr, err, (contents s1, final s1))"
    by (rule ReadFull_simE [OF assms])
  show ?thesis
  proof (cases err)
    case (Some x)
    with h show ?thesis by (simp add: pg_ReadPacket_def)
  next
    case None
    then have "length hdr = 5"
      using h(4) by (auto simp: ReadFull_stream split: if_splits)
    then obtain lf len t where f: "slice hdr 1 5 = Some lf" "BE_Uint32 lf = Some len"
      "index hdr 0 = Some t"
      by (auto simp: slice_def BE_Uint32_def index_def)
    obtain body err2 s2 where b: "ReadFull read (nat (sint len) - 4) s1 = Some (body, err2, s2)"
      "ok s2" "final s2 = final s1"
      "ReadFull stream_read (nat (sint len) - 4) (contents s1, final s1) =
         Some (body, err2, (contents s2, final s2))"
      by (rule ReadFull_simE [OF h(2)])
    show ?thesis using None h b f [simplified]
      by (cases err2) (simp_all add: pg_ReadPacket_def Let_def)
  qed
qed

lemma pg_ReadPacket_reader_sound:
  assumes "ok s" and "pg_ReadPacket read s = Some (Inr pkt, s')"
  shows "contents s = pg_Raw pkt @ contents s'"
    and "pg_Raw pkt = pg_frame (pg_Type pkt) (pg_Payload pkt)"
    and "sint (pg_Length pkt) = int (4 + length (pg_Payload pkt))"
    and "4 + length (pg_Payload pkt) \<le> pg_max"
  using pg_ReadPacket_simulates [OF assms(1)] assms(2) pg_ReadPacket_InrD by (metis option.inject prod.inject)+

lemma pg_ReadPacket_reader_frame:
  assumes "ok s" and "contents s = pg_frame typ payload @ rest" and "4 + length payload \<le> pg_max"
  shows "\<exists>s'. pg_ReadPacket read s =
      Some (Inr \<lparr>pg_Type = typ, pg_Length = of_nat (4 + length payload), pg_Payload = payload,
                 pg_Raw = pg_frame typ payload\<rparr>, s') \<and> ok s' \<and> contents s' = rest"
  using pg_ReadPacket_simulates [OF assms(1)] pg_ReadPacket_frame [OF assms(3)] assms(2) by fastforce

end

section \<open>Startup messages\<close>

lemma ReadStartupBytes_stream:
  "ReadStartupBytes stream_read (bs, e) = Some (
     if length bs < 4
     then (Inl (if bs \<noteq> [] \<and> e = EOF then UnexpectedEOF else e), ([], e))
     else let n = be_val (take 4 bs) in
       if n < 4 \<or> 10000 < n
       then (Inl (Errorf (''postgres: invalid startup message length '' @ show_nat n)), (drop 4 bs, e))
       else if length bs < n
       then (Inl (if drop 4 bs \<noteq> [] \<and> e = EOF then UnexpectedEOF else e), ([], e))
       else (Inr (take n bs), (drop n bs, e)))"
proof (cases "length bs < 4")
  case True
  then show ?thesis by (simp add: ReadStartupBytes_def ReadFull_stream)
next
  case False
  have "be_val (take 4 bs) < 2 ^ 32" using be_val_lt [of "take 4 bs"] False by simp
  then have v: "BE_Uint32 (take 4 bs) = Some (of_nat (be_val (take 4 bs)))"
    "unat (of_nat (be_val (take 4 bs)) :: 32 word) = be_val (take 4 bs)"
    using False by (simp_all add: BE_Uint32_def unat_of_nat)
  show ?thesis
  proof (cases "be_val (take 4 bs) < 4 \<or> 10000 < be_val (take 4 bs)")
    case True
    then show ?thesis using False
      by (simp add: ReadStartupBytes_def ReadFull_stream v)
  next
    case valid: False
    then obtain m where m: "be_val (take 4 bs) = 4 + m"
      by (metis le_Suc_ex linorder_not_less)
    have "take (4 + m) bs = take 4 bs @ take m (drop 4 bs)" by (simp only: take_add)
    moreover have "drop (4 + m) bs = drop m (drop 4 bs)" by (simp add: add.commute)
    moreover have "length bs < 4 + m \<longleftrightarrow> length (drop 4 bs) < m" using False by (simp; linarith)
    moreover note v' = v [unfolded m]
    ultimately show ?thesis using valid False
      by (cases "m = 0")
        (simp_all add: ReadStartupBytes_def ReadFull_stream v' m Let_def
          del: drop_drop length_drop of_nat_add)
  qed
qed

lemma ReadStartupBytes_InrD:
  assumes "ReadStartupBytes stream_read (bs, e) = Some (Inr raw, (bs', e'))"
  shows "bs = raw @ bs'" and "4 \<le> length raw" and "length raw \<le> 10000"
    and "be_val (take 4 raw) = length raw"
proof -
  have n: "4 \<le> be_val (take 4 bs)" "be_val (take 4 bs) \<le> 10000"
    "be_val (take 4 bs) \<le> length bs"
    and raw: "raw = take (be_val (take 4 bs)) bs" "bs' = drop (be_val (take 4 bs)) bs"
    using assms by (auto simp: ReadStartupBytes_stream Let_def split: if_splits)
  from raw n show "bs = raw @ bs'" "4 \<le> length raw" "length raw \<le> 10000"
    by simp_all
  define k where "k = be_val (take 4 bs)"
  then have "take 4 raw = take 4 bs" "length raw = k" using raw(1) n by simp_all
  then show "be_val (take 4 raw) = length raw" by (simp only: k_def)
qed

context byte_reader
begin

lemma ReadStartupBytes_simulates:
  assumes "ok s"
  shows "\<exists>r s'. ReadStartupBytes read s = Some (r, s') \<and> ok s' \<and> final s' = final s
     \<and> ReadStartupBytes stream_read (contents s, final s) = Some (r, (contents s', final s'))"
proof -
  obtain hdr err s1 where h: "ReadFull read 4 s = Some (hdr, err, s1)" "ok s1" "final s1 = final s"
    "ReadFull stream_read 4 (contents s, final s) = Some (hdr, err, (contents s1, final s1))"
    by (rule ReadFull_simE [OF assms])
  show ?thesis
  proof (cases err)
    case (Some x)
    with h show ?thesis by (simp add: ReadStartupBytes_def)
  next
    case None
    then have "length hdr = 4"
      using h(4) by (auto simp: ReadFull_stream split: if_splits)
    then obtain len where f: "BE_Uint32 hdr = Some len"
      by (simp add: BE_Uint32_def)
    obtain body err2 s2 where b: "ReadFull read (unat len - 4) s1 = Some (body, err2, s2)"
      "ok s2" "final s2 = final s1"
      "ReadFull stream_read (unat len - 4) (contents s1, final s1) =
         Some (body, err2, (contents s2, final s2))"
      by (rule ReadFull_simE [OF h(2)])
    show ?thesis using None h b f
      by (cases err2) (simp_all add: ReadStartupBytes_def Let_def)
  qed
qed

lemma ReadStartupBytes_reader:
  assumes "ok s" and "ReadStartupBytes read s = Some (Inr raw, s')"
  shows "contents s = raw @ contents s'" and "4 \<le> length raw" and "length raw \<le> 10000"
    and "be_val (take 4 raw) = length raw"
proof -
  have "ReadStartupBytes stream_read (contents s, final s) = Some (Inr raw, (contents s', final s'))"
    using ReadStartupBytes_simulates [OF assms(1)] assms(2) by auto
  from ReadStartupBytes_InrD [OF this] show "contents s = raw @ contents s'" "4 \<le> length raw"
    "length raw \<le> 10000" "be_val (take 4 raw) = length raw" .
qed

end

section \<open>The responses\<close>

text \<open>The fields of the error response.\<close>

definition error_fields :: "string \<Rightarrow> bytes" where
  "error_fields message =
     bytes_of ''SERROR'' @ [0] @ bytes_of ''C42501'' @ [0] @ bytes_of ''M'' @ bytes_of message @ [0] @ [0]"

lemma length_error_fields [simp]: "length (error_fields m) = 17 + length m"
  by (simp add: error_fields_def)

lemma BuildErrorResponse_eq:
  "BuildErrorResponse m =
     Some (byte_of_char CHR ''E'' # BE_PutUint32 (of_nat (21 + length m)) @ error_fields m)"
proof -
  let ?n = "length m"
  have "BuildErrorResponse m = do {
     buf \<leftarrow> put (filled [] (22 + ?n)) 0 (byte_of_char CHR ''E'');
     buf \<leftarrow> copy_at buf 1 (BE_PutUint32 (of_nat (21 + ?n)));
     buf \<leftarrow> put buf 5 (byte_of_char CHR ''S'');
     buf \<leftarrow> copy_at buf 6 (bytes_of ''ERROR'' @ [0]);
     buf \<leftarrow> put buf 12 (byte_of_char CHR ''C'');
     buf \<leftarrow> copy_at buf 13 (bytes_of ''42501'' @ [0]);
     buf \<leftarrow> put buf 19 (byte_of_char CHR ''M'');
     buf \<leftarrow> copy_at buf 20 (bytes_of m);
     buf \<leftarrow> put buf (20 + ?n) 0;
     put buf (21 + ?n) 0 }"
    by (simp add: BuildErrorResponse_def Let_def make_filled)
  also have "\<dots> = Some (byte_of_char CHR ''E'' # BE_PutUint32 (of_nat (21 + ?n)) @ error_fields m)"
    by (simp add: fill_buffer error_fields_def bytes_of_def)
  finally show ?thesis .
qed

lemma BuildErrorResponse_frame:
  assumes "21 + length m \<le> pg_max"
  shows "BuildErrorResponse m = Some (pg_frame (byte_of_char CHR ''E'') (error_fields m))"
proof -
  have "unat (of_nat (21 + length m) :: 32 word) = 21 + length m"
    using assms by (subst unat_of_nat) (simp add: pg_max_def)
  then show ?thesis
    by (simp add: BuildErrorResponse_eq pg_frame_def BE_PutUint32_def del: of_nat_add)
qed

section \<open>Properties\<close>

text \<open>
  C23: A message read off any connection, however segmented, is verbatim: \<open>Raw\<close> is exactly the bytes
  consumed and is the wire form of \<open>Type\<close> and \<open>Payload\<close>; \<open>Length\<close>, read as a signed 32-bit integer,
  is 4 plus the payload's length and never above 256 MiB.
\<close>

theorem pg_read_verbatim:
  assumes "conn_ok c" and "pg_ReadPacket conn_read c = Some (Inr pkt, c')"
  shows "conn_bytes c = pg_Raw pkt @ conn_bytes c'
       \<and> pg_Raw pkt = pg_frame (pg_Type pkt) (pg_Payload pkt)
       \<and> sint (pg_Length pkt) = int (4 + length (pg_Payload pkt))
       \<and> sint (pg_Length pkt) \<le> 256 * 1024 * 1024"
  using conn.pg_ReadPacket_reader_sound [OF assms] by (simp add: pg_max_def)

theorem pg_read_verbatim_witness:
  "pg_ReadPacket conn_read \<lparr>segments = [[0x51, 0, 0], [0, 6, 65, 0, 9]], close_err = EOF\<rparr> =
     Some (Inr \<lparr>pg_Type = 0x51, pg_Length = 6, pg_Payload = [65, 0], pg_Raw = [0x51, 0, 0, 0, 6, 65, 0]\<rparr>,
           \<lparr>segments = [[9]], close_err = EOF\<rparr>)
   \<and> [0x51, 0, 0, 0, 6, 65, 0] = pg_frame 0x51 [65, 0]"
proof -
  let ?c = "\<lparr>segments = [[0x51, 0, 0], [0, 6, 65, 0, 9]], close_err = EOF\<rparr>"
  have ok: "conn_ok ?c" by (simp add: conn_ok_def)
  have rd: "pg_ReadPacket conn_read ?c =
     Some (Inr \<lparr>pg_Type = 0x51, pg_Length = 6, pg_Payload = [65, 0], pg_Raw = [0x51, 0, 0, 0, 6, 65, 0]\<rparr>,
           \<lparr>segments = [[9]], close_err = EOF\<rparr>)"
    by (simp add: pg_ReadPacket_def ReadStartupBytes_def ReadFull_def read_loop.simps
        conn_read_def go_access be_val_def cong: option.case_cong_weak)
  from pg_read_verbatim [OF ok rd] rd show ?thesis by simp
qed

text \<open>
  Round trip through the framing: a message of at most 256 MiB is read back from any connection
  that carries its wire form, whatever the segmentation, and what follows it is left unread.
\<close>

theorem pg_frame_read:
  assumes "conn_ok c" and "conn_bytes c = pg_frame typ payload @ rest"
    and "4 + length payload \<le> 256 * 1024 * 1024"
  shows "\<exists>c'. pg_ReadPacket conn_read c =
      Some (Inr \<lparr>pg_Type = typ, pg_Length = of_nat (4 + length payload), pg_Payload = payload,
                 pg_Raw = pg_frame typ payload\<rparr>, c') \<and> conn_ok c' \<and> conn_bytes c' = rest"
  using conn.pg_ReadPacket_reader_frame [OF assms(1,2)] assms(3) by (simp add: pg_max_def)

theorem pg_frame_read_witness:
  "\<exists>c'. pg_ReadPacket conn_read \<lparr>segments = [[0x53], [0, 0, 0, 4, 7]], close_err = EOF\<rparr> =
      Some (Inr \<lparr>pg_Type = 0x53, pg_Length = of_nat (4 + length ([] :: bytes)), pg_Payload = [],
                 pg_Raw = pg_frame 0x53 []\<rparr>, c') \<and> conn_ok c' \<and> conn_bytes c' = [7]"
proof (rule pg_frame_read)
  have "be_bytes 4 4 = [0, 0, 0, 4]" by code_simp
  then show "conn_bytes \<lparr>segments = [[0x53], [0, 0, 0, 4, 7]], close_err = EOF\<rparr> = pg_frame 0x53 [] @ [7]"
    by (simp add: conn_bytes_def pg_frame_def)
qed (simp_all add: conn_ok_def)

text \<open>
  \<open>ReadStartupBytes\<close> returns exactly the bytes it consumed, between 4 and 10000 of them, as many
  as the big-endian length field at their front says.
\<close>

theorem startup_read_verbatim:
  assumes "conn_ok c" and "ReadStartupBytes conn_read c = Some (Inr raw, c')"
  shows "conn_bytes c = raw @ conn_bytes c' \<and> 4 \<le> length raw \<and> length raw \<le> 10000
       \<and> be_val (take 4 raw) = length raw"
  using conn.ReadStartupBytes_reader [OF assms] by simp

theorem startup_read_verbatim_witness:
  "ReadStartupBytes conn_read \<lparr>segments = [[0, 0, 0, 8, 4], [0xd2, 0x16, 0x2f, 1]], close_err = EOF\<rparr> =
     Some (Inr [0, 0, 0, 8, 4, 0xd2, 0x16, 0x2f], \<lparr>segments = [[1]], close_err = EOF\<rparr>)
   \<and> be_val (take 4 [0, 0, 0, 8, 4, 0xd2, 0x16, 0x2f]) = 8"
proof -
  let ?c = "\<lparr>segments = [[0, 0, 0, 8, 4], [0xd2, 0x16, 0x2f, 1]], close_err = EOF\<rparr>"
  have ok: "conn_ok ?c" by (simp add: conn_ok_def)
  have rd: "ReadStartupBytes conn_read ?c =
      Some (Inr [0, 0, 0, 8, 4, 0xd2, 0x16, 0x2f], \<lparr>segments = [[1]], close_err = EOF\<rparr>)"
    by (simp add: pg_ReadPacket_def ReadStartupBytes_def ReadFull_def read_loop.simps
        conn_read_def go_access be_val_def cong: option.case_cong_weak)
  from startup_read_verbatim [OF ok rd] rd show ?thesis by simp
qed

text \<open>
  \<open>IsSSLRequest\<close> never panics and accepts exactly the eight-byte messages whose last four bytes
  are the SSL request code 80877103, in big-endian order.
\<close>

theorem IsSSLRequest_iff:
  "IsSSLRequest raw = Some (length raw = 8 \<and> drop 4 raw = be_bytes 4 80877103)"
proof (cases "length raw = 8")
  case True
  then have d: "length (drop 4 raw) = 4" by simp
  then have lt: "be_val (drop 4 raw) < 2 ^ 32" using be_val_lt [of "drop 4 raw"] by simp
  have "drop 4 raw = be_bytes 4 80877103 \<longleftrightarrow> be_val (drop 4 raw) = 80877103"
    using be_bytes_val [of "drop 4 raw"] d by (auto simp: be_val_bytes)
  also have "\<dots> \<longleftrightarrow> of_nat (be_val (drop 4 raw)) = (80877103 :: 32 word)"
    using lt by (auto simp: word_unat_eq_iff unat_of_nat)
  finally show ?thesis using True
    by (simp add: IsSSLRequest_def slice_def BE_Uint32_def)
qed (simp add: IsSSLRequest_def)

text \<open>
  C31: \<open>BuildErrorResponse\<close> never writes outside its buffer, and for every message that fits the length
  limit its bytes are read back as one message of type \<open>E\<close> whose payload is the severity ERROR, the
  code 42501, the message and the terminator; followed by \<open>ReadyForQueryIdle\<close>, the client then reads
  the ready message \<open>Z\<close> with status \<open>I\<close>.
\<close>

theorem error_response_read:
  assumes "21 + length m \<le> 256 * 1024 * 1024"
  shows "\<exists>b. BuildErrorResponse m = Some b
     \<and> pg_ReadPacket stream_read (b @ ReadyForQueryIdle @ rest, e) =
         Some (Inr \<lparr>pg_Type = byte_of_char CHR ''E'', pg_Length = of_nat (21 + length m),
                    pg_Payload = error_fields m, pg_Raw = b\<rparr>, (ReadyForQueryIdle @ rest, e))
     \<and> pg_ReadPacket stream_read (ReadyForQueryIdle @ rest, e) =
         Some (Inr \<lparr>pg_Type = byte_of_char CHR ''Z'', pg_Length = 5,
                    pg_Payload = [byte_of_char CHR ''I''], pg_Raw = ReadyForQueryIdle\<rparr>, (rest, e))"
proof -
  have f: "BuildErrorResponse m = Some (pg_frame (byte_of_char CHR ''E'') (error_fields m))"
    using assms by (intro BuildErrorResponse_frame) (simp add: pg_max_def)
  have len: "4 + length (error_fields m) \<le> pg_max" using assms by (simp add: pg_max_def)
  have z: "ReadyForQueryIdle = pg_frame (byte_of_char CHR ''Z'') [byte_of_char CHR ''I'']"
    by code_simp
  have "pg_ReadPacket stream_read (ReadyForQueryIdle @ rest, e) =
      Some (Inr \<lparr>pg_Type = byte_of_char CHR ''Z'', pg_Length = 5,
                 pg_Payload = [byte_of_char CHR ''I''], pg_Raw = ReadyForQueryIdle\<rparr>, (rest, e))"
    unfolding z by (subst pg_ReadPacket_frame) (simp_all add: pg_max_def)
  with f show ?thesis
    using pg_ReadPacket_frame [OF len, of "byte_of_char CHR ''E''" "ReadyForQueryIdle @ rest" e]
    by (simp add: add.assoc [symmetric])
qed

theorem error_response_read_witness:
  "\<exists>b. BuildErrorResponse ''blocked'' = Some b
     \<and> pg_ReadPacket stream_read (b @ ReadyForQueryIdle @ [1], EOF) =
         Some (Inr \<lparr>pg_Type = byte_of_char CHR ''E'', pg_Length = of_nat (21 + length ''blocked''),
                    pg_Payload = error_fields ''blocked'', pg_Raw = b\<rparr>, (ReadyForQueryIdle @ [1], EOF))"
proof -
  have "21 + length ''blocked'' \<le> 256 * 1024 * 1024" by simp
  from error_response_read [OF this, of "[1]" EOF] show ?thesis by blast
qed

text \<open>
  A message cut off right after its five-byte header is reported as the bare \<open>io.EOF\<close>, exactly as a
  connection closed between messages: a reader of this framer cannot tell the two apart.
\<close>

theorem pg_truncated_is_clean_eof:
  assumes "0 < n" and "4 + n \<le> 256 * 1024 * 1024"
  shows "pg_ReadPacket stream_read (typ # be_bytes 4 (4 + n), EOF) = Some (Inl EOF, ([], EOF))
       \<and> pg_ReadPacket stream_read ([], EOF) = Some (Inl EOF, ([], EOF))"
proof -
  have "BE_Uint32 (be_bytes 4 (4 + n)) = Some (pg_len (typ # be_bytes 4 (4 + n)))"
    by (simp add: BE_Uint32_def pg_len_def)
  then have "pg_len (typ # be_bytes 4 (4 + n)) = of_nat (4 + n)"
    and "sint (of_nat (4 + n) :: 32 word) = int (4 + n)"
    using sint_be4 [of "4 + n"] assms by (auto simp: pg_max_def)
  then show ?thesis using assms
    by (simp add: pg_ReadPacket_stream Let_def pg_max_def nat_add_distrib del: of_nat_add)
qed

theorem pg_truncated_is_clean_eof_witness:
  "pg_ReadPacket stream_read (0x51 # be_bytes 4 (4 + 10), EOF) = Some (Inl EOF, ([], EOF))"
  using pg_truncated_is_clean_eof [of 10 "0x51"] by simp

end
