(* ===== verification/PostgresQuery.thy ===== *)
theory PostgresQuery
  imports PostgresPacket
begin

text \<open>
  The contents of PostgreSQL messages (\<open>protocol/postgres/query.go\<close>): SQL of simple queries and of
  prepared statements, the names in Parse, Bind and Execute, the transaction status, and the values of
  a DataRow. As in the other parsers, None is a run-time panic.
\<close>

section \<open>Message types\<close>

definition MsgQuery :: byte where "MsgQuery = byte_of_char CHR ''Q''"
definition MsgParse :: byte where "MsgParse = byte_of_char CHR ''P''"
definition MsgBind :: byte where "MsgBind = byte_of_char CHR ''B''"
definition MsgExecute :: byte where "MsgExecute = byte_of_char CHR ''E''"
definition MsgReadyForQuery :: byte where "MsgReadyForQuery = byte_of_char CHR ''Z''"
definition MsgDataRow :: byte where "MsgDataRow = byte_of_char CHR ''D''"
definition MsgDescribe :: byte where "MsgDescribe = byte_of_char CHR ''D''"
definition MsgClose :: byte where "MsgClose = byte_of_char CHR ''C''"
definition MsgSync :: byte where "MsgSync = byte_of_char CHR ''S''"
definition MsgFlush :: byte where "MsgFlush = byte_of_char CHR ''H''"
definition MsgTerminate :: byte where "MsgTerminate = byte_of_char CHR ''X''"
definition MsgAuthRequest :: byte where "MsgAuthRequest = byte_of_char CHR ''R''"
definition MsgErrorResponse :: byte where "MsgErrorResponse = byte_of_char CHR ''E''"
definition MsgParameterStatus :: byte where "MsgParameterStatus = byte_of_char CHR ''S''"
definition MsgBackendKeyData :: byte where "MsgBackendKeyData = byte_of_char CHR ''K''"
definition MsgCommandComplete :: byte where "MsgCommandComplete = byte_of_char CHR ''C''"
definition MsgRowDescription :: byte where "MsgRowDescription = byte_of_char CHR ''T''"
definition MsgEmptyQueryResponse :: byte where "MsgEmptyQueryResponse = byte_of_char CHR ''I''"
definition MsgNoticeResponse :: byte where "MsgNoticeResponse = byte_of_char CHR ''N''"

lemmas msg_defs = MsgQuery_def MsgParse_def MsgBind_def MsgExecute_def MsgReadyForQuery_def MsgDataRow_def

section \<open>Extraction\<close>

definition ExtractSQL :: "pg_packet \<Rightarrow> (string \<times> bool) option" where
  "ExtractSQL pkt =
     (let payload = pg_Payload pkt in
      if pg_Type pkt = MsgQuery then
        (if length payload = 0 then Some ([], False)
         else do {
           l \<leftarrow> index payload (length payload - 1);
           sql \<leftarrow> (if l = 0 then slice payload 0 (length payload - 1) else Some payload);
           Some (str_of sql, True)
         })
      else if pg_Type pkt = MsgParse then
        (let pos = scan_nul payload 0 + 1 in
         if length payload \<le> pos then Some ([], False)
         else let end = scan_nul payload pos in
           if end = pos then Some ([], False)
           else do { b \<leftarrow> slice payload pos end; Some (str_of b, True) })
      else Some ([], False))"

text \<open>A NUL-terminated string at an offset, the offset behind its terminator, and success.\<close>

definition cstring :: "bytes \<Rightarrow> nat \<Rightarrow> (string \<times> nat \<times> bool) option" where
  "cstring p off =
     (let end = scan_nul p off in
      if length p \<le> end then Some ([], off, False)
      else do { b \<leftarrow> slice p off end; Some (str_of b, end + 1, True) })"

definition ParseParse :: "pg_packet \<Rightarrow> (string \<times> string \<times> bool) option" where
  "ParseParse pkt =
     (if pg_Type pkt \<noteq> MsgParse then Some ([], [], False)
      else do {
        (name, pos, ok) \<leftarrow> cstring (pg_Payload pkt) 0;
        if \<not> ok then Some ([], [], False)
        else do {
          (sql, _, ok) \<leftarrow> cstring (pg_Payload pkt) pos;
          if \<not> ok then Some ([], [], False) else Some (name, sql, True)
        }
      })"

definition ParseBind :: "pg_packet \<Rightarrow> (string \<times> string \<times> bool) option" where
  "ParseBind pkt =
     (if pg_Type pkt \<noteq> MsgBind then Some ([], [], False)
      else do {
        (portal, pos, ok) \<leftarrow> cstring (pg_Payload pkt) 0;
        if \<not> ok then Some ([], [], False)
        else do {
          (stmt, _, ok) \<leftarrow> cstring (pg_Payload pkt) pos;
          if \<not> ok then Some ([], [], False) else Some (portal, stmt, True)
        }
      })"

definition ParseExecute :: "pg_packet \<Rightarrow> (string \<times> bool) option" where
  "ParseExecute pkt =
     (if pg_Type pkt \<noteq> MsgExecute then Some ([], False)
      else do {
        (portal, _, ok) \<leftarrow> cstring (pg_Payload pkt) 0;
        Some (portal, ok)
      })"

definition ReadyForQueryStatus :: "pg_packet \<Rightarrow> (byte \<times> bool) option" where
  "ReadyForQueryStatus pkt =
     (if pg_Type pkt \<noteq> MsgReadyForQuery \<or> length (pg_Payload pkt) < 1 then Some (0, False)
      else do { b \<leftarrow> index (pg_Payload pkt) (length (pg_Payload pkt) - 1); Some (b, True) })"

text \<open>The loop over the \<open>n\<close> announced fields; leaving early is the \<open>break\<close>.\<close>

fun data_row_loop :: "bytes \<Rightarrow> nat \<Rightarrow> nat \<Rightarrow> string list \<Rightarrow> string list option" where
  "data_row_loop p 0 pos vals = Some vals"
| "data_row_loop p (Suc n) pos vals =
     (if length p < pos + 4 then Some vals
      else do {
        b \<leftarrow> slice p pos (pos + 4);
        v \<leftarrow> BE_Uint32 b;
        let l = sint v;
        let pos = pos + 4;
        if l < 0 then data_row_loop p n pos vals
        else if length p < pos + nat l then Some vals
        else do {
          val \<leftarrow> slice p pos (pos + nat l);
          data_row_loop p n (pos + nat l) (vals @ [str_of val])
        }
      })"

definition ParseDataRow :: "pg_packet \<Rightarrow> (string list \<times> bool) option" where
  "ParseDataRow pkt =
     (if pg_Type pkt \<noteq> MsgDataRow then Some ([], False)
      else let p = pg_Payload pkt in
        if length p < 2 then Some ([], False)
        else do {
          b \<leftarrow> slice p 0 2;
          n \<leftarrow> BE_Uint16 b;
          vals \<leftarrow> data_row_loop p (unat n) 2 [];
          Some (vals, True)
        })"

section \<open>C strings\<close>

lemma cstring_field:
  assumes "no_nul s"
  shows "cstring (a @ bytes_of s @ 0 # r) (length a) = Some (s, length a + length s + 1, True)"
  using scan_nul_field [of "bytes_of s" a r] assms slice_append [of a "bytes_of s" "0 # r"]
  by (simp add: cstring_def no_nul_bytes)

lemma cstring_returns: "off \<le> length p \<Longrightarrow> cstring p off \<noteq> None"
  using scan_nul_ge [of off p] by (auto simp: cstring_def Let_def slice_def simp del: not_None_eq)

lemma cstring_inv:
  assumes "cstring p off = Some (s, n, True)"
  shows "p = take off p @ bytes_of s @ 0 # drop n p" and "no_nul s"
    and "n = off + length s + 1" and "off + length s < length p"
proof -
  define e where "e = scan_nul p off"
  from assms have e: "e < length p" "off \<le> e" and s: "s = str_of (take (e - off) (drop off p))"
    and n: "n = e + 1"
    using scan_nul_ge [of off p]
    by (auto simp: cstring_def slice_def e_def Let_def split: if_splits)
  have "p ! e = 0" using scan_nul_stop [of p off] e by (simp add: e_def)
  then have "drop e p = 0 # drop n p" using e n by (metis Cons_nth_drop_Suc Suc_eq_plus1)
  moreover have "p = take off p @ take (e - off) (drop off p) @ drop e p"
    using e by (metis append_take_drop_id drop_drop le_add_diff_inverse2)
  ultimately show "p = take off p @ bytes_of s @ 0 # drop n p" by (simp add: s)
  have "take (e - off) (drop off p) = takeWhile (\<lambda>b. b \<noteq> 0) (drop off p)"
    using e(2) by (simp add: e_def scan_nul_eq takeWhile_eq_take [symmetric])
  then show "no_nul s" unfolding no_nul_bytes s bytes_of_str_of
    by (metis (mono_tags) set_takeWhileD)
  show "n = off + length s + 1" "off + length s < length p" using e n by (simp_all add: s)
qed

text \<open>Two consecutive C strings at the front of a payload.\<close>

lemma two_cstrings:
  assumes "no_nul a" and "no_nul b"
  shows "cstring (bytes_of a @ 0 # bytes_of b @ 0 # r) 0 = Some (a, length a + 1, True)"
    and "cstring (bytes_of a @ 0 # bytes_of b @ 0 # r) (length a + 1) = Some (b, length a + length b + 2, True)"
  using cstring_field [OF assms(1), of "[]" "bytes_of b @ 0 # r"]
    cstring_field [OF assms(2), of "bytes_of a @ [0]" r]
  by simp_all

lemma two_cstrings_inv:
  assumes "cstring p 0 = Some (a, pos, True)" and "cstring p pos = Some (b, n, True)"
  shows "\<exists>r. p = bytes_of a @ 0 # bytes_of b @ 0 # r" and "no_nul a" and "no_nul b"
proof -
  note i1 = cstring_inv [OF assms(1)] and i2 = cstring_inv [OF assms(2)]
  show "no_nul a" "no_nul b" using i1 i2 by simp_all
  have p: "p = bytes_of a @ 0 # drop pos p" using i1(1) by simp
  then have "take pos p = bytes_of a @ [0]"
    using i1(3) by (metis append.assoc append_Cons append_Nil append_take_drop_id append_same_eq)
  with i2(1) show "\<exists>r. p = bytes_of a @ 0 # bytes_of b @ 0 # r" by (metis append.assoc append_Cons append_Nil)
qed

section \<open>No panics\<close>

lemma cstring_pos: "cstring p off = Some (s, n, ok) \<Longrightarrow> off \<le> length p \<Longrightarrow> n \<le> length p"
  by (auto simp: cstring_def Let_def slice_def split: if_splits)

lemma ParseParse_returns: "ParseParse pkt \<noteq> None"
proof -
  obtain a n ok where c: "cstring (pg_Payload pkt) 0 = Some (a, n, ok)"
    using cstring_returns [of 0 "pg_Payload pkt"] by auto
  obtain b m ok' where "cstring (pg_Payload pkt) n = Some (b, m, ok')"
    using cstring_returns [of n "pg_Payload pkt"] cstring_pos [OF c] by auto
  with c show ?thesis by (simp add: ParseParse_def)
qed

lemma ParseBind_returns: "ParseBind pkt \<noteq> None"
proof -
  obtain a n ok where c: "cstring (pg_Payload pkt) 0 = Some (a, n, ok)"
    using cstring_returns [of 0 "pg_Payload pkt"] by auto
  obtain b m ok' where "cstring (pg_Payload pkt) n = Some (b, m, ok')"
    using cstring_returns [of n "pg_Payload pkt"] cstring_pos [OF c] by auto
  with c show ?thesis by (simp add: ParseBind_def)
qed

lemma ParseExecute_returns: "ParseExecute pkt \<noteq> None"
  using cstring_returns [of 0 "pg_Payload pkt"] by (auto simp: ParseExecute_def)

lemma ReadyForQueryStatus_returns: "ReadyForQueryStatus pkt \<noteq> None"
  by (auto simp: ReadyForQueryStatus_def index_def simp del: not_None_eq)

lemma ExtractSQL_returns: "ExtractSQL pkt \<noteq> None"
proof -
  have "scan_nul (pg_Payload pkt) (Suc (scan_nul (pg_Payload pkt) 0)) \<le> length (pg_Payload pkt)"
    if "Suc (scan_nul (pg_Payload pkt) 0) < length (pg_Payload pkt)"
    using that by (intro scan_nul_le) simp
  then show ?thesis
    by (auto simp: ExtractSQL_def go_access Let_def simp del: not_None_eq)
qed

lemma data_row_loop_returns: "data_row_loop p n pos vals \<noteq> None"
proof (induction p n pos vals rule: data_row_loop.induct)
  case (2 p n pos vals)
  then show ?case by (auto simp: go_access Let_def simp del: not_None_eq)
qed simp

lemma ParseDataRow_returns: "ParseDataRow pkt \<noteq> None"
  by (simp add: ParseDataRow_def go_access Let_def Option.bind_eq_None_conv data_row_loop_returns
      del: not_None_eq)

section \<open>Rows\<close>

text \<open>The wire form of a row: a value or SQL NULL (length -1) per field.\<close>

fun field_bytes :: "bytes option \<Rightarrow> bytes" where
  "field_bytes None = be_bytes 4 (2 ^ 32 - 1)"
| "field_bytes (Some v) = be_bytes 4 (length v) @ v"

definition row_payload :: "bytes option list \<Rightarrow> bytes" where
  "row_payload fs = be_bytes 2 (length fs) @ concat (map field_bytes fs)"

definition row_ok :: "bytes option list \<Rightarrow> bool" where
  "row_ok fs \<longleftrightarrow> length fs < 2 ^ 16 \<and> (\<forall>v. Some v \<in> set fs \<longrightarrow> length v < 2 ^ 31)"

definition row_values :: "bytes option list \<Rightarrow> string list" where
  "row_values fs = map str_of (List.map_filter (\<lambda>x. x) fs)"

lemma slice_at: "length a = n \<Longrightarrow> length b = m \<Longrightarrow> slice (a @ b @ c) n (n + m) = Some b"
  by auto

lemma data_row_loop_fields:
  assumes "\<forall>v. Some v \<in> set fs \<longrightarrow> length v < 2 ^ 31"
  shows "data_row_loop (pre @ concat (map field_bytes fs) @ r) (length fs) (length pre) vals =
           Some (vals @ row_values fs)"
  using assms
proof (induction fs arbitrary: pre vals)
  case Nil
  then show ?case by (simp add: row_values_def List.map_filter_def)
next
  case (Cons f fs)
  let ?r = "concat (map field_bytes fs) @ r"
  have ih: "data_row_loop (pre' @ ?r) (length fs) (length pre') vals' = Some (vals' @ row_values fs)"
    for pre' vals' using Cons by simp
  show ?case
  proof (cases f)
    case None
    have "BE_Uint32 (be_bytes 4 (2 ^ 32 - 1)) = Some (2 ^ 32 - 1)"
      by (simp add: BE_Uint32_def be_val_bytes)
    moreover have "sint (2 ^ 32 - 1 :: 32 word) = -1" by simp
    moreover have "slice (pre @ be_bytes 4 (2 ^ 32 - 1) @ ?r) (length pre) (length pre + 4)
        = Some (be_bytes 4 (2 ^ 32 - 1))" by (rule slice_at) simp_all
    ultimately show ?thesis
      using None ih [of "pre @ be_bytes 4 (2 ^ 32 - 1)" vals]
      by (simp add: row_values_def List.map_filter_def Let_def)
  next
    case (Some v)
    then have v: "length v < 2 ^ 31" using Cons.prems by simp
    have "BE_Uint32 (be_bytes 4 (length v)) = Some (of_nat (length v))"
      using v by (simp add: BE_Uint32_def be_val_bytes)
    moreover have "sint (of_nat (length v) :: 32 word) = int (length v)"
      using v by (rule sint_small_word32)
    moreover have "slice (pre @ be_bytes 4 (length v) @ v @ ?r) (length pre) (length pre + 4)
        = Some (be_bytes 4 (length v))" by (rule slice_at) simp_all
    moreover have "slice (pre @ be_bytes 4 (length v) @ v @ ?r) (length pre + 4) (length pre + 4 + length v)
        = Some v" using slice_at [of "pre @ be_bytes 4 (length v)" "length pre + 4" v _ ?r] by simp
    ultimately show ?thesis
      using Some ih [of "pre @ be_bytes 4 (length v) @ v" "vals @ [str_of v]"]
      by (simp add: row_values_def List.map_filter_def Let_def add.assoc)
  qed
qed

section \<open>Properties\<close>

lemma ParseParse_eq:
  "ParseParse pkt = Some (name, sql, True) \<longleftrightarrow>
     pg_Type pkt = MsgParse \<and> no_nul name \<and> no_nul sql
     \<and> (\<exists>r. pg_Payload pkt = bytes_of name @ 0 # bytes_of sql @ 0 # r)"
proof
  assume L: "ParseParse pkt = Some (name, sql, True)"
  then have t: "pg_Type pkt = MsgParse" by (auto simp: ParseParse_def split: if_splits)
  obtain a n ok where c: "cstring (pg_Payload pkt) 0 = Some (a, n, ok)"
    using cstring_returns [of 0 "pg_Payload pkt"] by auto
  obtain b m ok' where d: "cstring (pg_Payload pkt) n = Some (b, m, ok')"
    using cstring_returns [of n "pg_Payload pkt"] cstring_pos [OF c] by auto
  from L t c d have "ok" "ok'" "a = name" "b = sql"
    by (auto simp: ParseParse_def split: if_splits)
  with two_cstrings_inv [of "pg_Payload pkt" name n sql m] c d t
  show "pg_Type pkt = MsgParse \<and> no_nul name \<and> no_nul sql
     \<and> (\<exists>r. pg_Payload pkt = bytes_of name @ 0 # bytes_of sql @ 0 # r)" by auto
next
  assume "pg_Type pkt = MsgParse \<and> no_nul name \<and> no_nul sql
     \<and> (\<exists>r. pg_Payload pkt = bytes_of name @ 0 # bytes_of sql @ 0 # r)"
  then show "ParseParse pkt = Some (name, sql, True)"
    using two_cstrings [of name sql] by (auto simp: ParseParse_def)
qed

text \<open>
  C25: \<open>ParseParse\<close> succeeds exactly on Parse messages whose payload starts with two NUL-terminated
  strings, and returns them: the statement name and the SQL text.
\<close>

theorem ParseParse_iff:
  "ParseParse pkt = Some (name, sql, True) \<longleftrightarrow>
     pg_Type pkt = MsgParse \<and> no_nul name \<and> no_nul sql
     \<and> (\<exists>r. pg_Payload pkt = bytes_of name @ 0 # bytes_of sql @ 0 # r)"
  by (rule ParseParse_eq)

text \<open>
  \<open>ParseBind\<close> succeeds exactly on Bind messages whose payload starts with two NUL-terminated
  strings, the portal and the statement, and \<open>ParseExecute\<close> exactly on Execute messages that start
  with the NUL-terminated portal name; both return those names.
\<close>

theorem ParseBind_Execute_iff:
  "(ParseBind pkt = Some (portal, stmt, True) \<longleftrightarrow>
      pg_Type pkt = MsgBind \<and> no_nul portal \<and> no_nul stmt
      \<and> (\<exists>r. pg_Payload pkt = bytes_of portal @ 0 # bytes_of stmt @ 0 # r))
   \<and> (ParseExecute pkt = Some (portal, True) \<longleftrightarrow>
      pg_Type pkt = MsgExecute \<and> no_nul portal \<and> (\<exists>r. pg_Payload pkt = bytes_of portal @ 0 # r))"
proof -
  have "ParseBind pkt = Some (portal, stmt, True) \<longleftrightarrow>
      pg_Type pkt = MsgBind \<and> ParseParse (pkt\<lparr>pg_Type := MsgParse\<rparr>) = Some (portal, stmt, True)"
    by (auto simp: ParseBind_def ParseParse_def cong: if_cong)
  moreover have "ParseExecute pkt = Some (portal, True) \<longleftrightarrow>
      pg_Type pkt = MsgExecute \<and> (\<exists>n. cstring (pg_Payload pkt) 0 = Some (portal, n, True))"
    using cstring_returns [of 0 "pg_Payload pkt"] by (auto simp: ParseExecute_def)
  moreover have "(\<exists>n. cstring (pg_Payload pkt) 0 = Some (portal, n, True)) \<longleftrightarrow>
      no_nul portal \<and> (\<exists>r. pg_Payload pkt = bytes_of portal @ 0 # r)"
  proof
    assume "\<exists>n. cstring (pg_Payload pkt) 0 = Some (portal, n, True)"
    then obtain n where c: "cstring (pg_Payload pkt) 0 = Some (portal, n, True)" ..
    show "no_nul portal \<and> (\<exists>r. pg_Payload pkt = bytes_of portal @ 0 # r)"
      using cstring_inv(1,2) [OF c] by auto
  next
    assume "no_nul portal \<and> (\<exists>r. pg_Payload pkt = bytes_of portal @ 0 # r)"
    then show "\<exists>n. cstring (pg_Payload pkt) 0 = Some (portal, n, True)"
      using cstring_field [of portal "[]"] by auto
  qed
  ultimately show ?thesis by (auto simp: ParseParse_eq)
qed

lemma ExtractSQL_of_Parse:
  assumes "ParseParse pkt = Some (name, sql, True)" and "sql \<noteq> []"
  shows "ExtractSQL pkt = Some (sql, True)"
proof -
  from assms(1) obtain r where t: "pg_Type pkt = MsgParse"
    and p: "pg_Payload pkt = bytes_of name @ 0 # bytes_of sql @ 0 # r"
    and n: "0 \<notin> set (bytes_of name)" "0 \<notin> set (bytes_of sql)"
    by (auto simp: ParseParse_eq no_nul_bytes)
  have s1: "scan_nul (pg_Payload pkt) 0 = length name"
    using scan_nul_field [OF n(1), of "[]" "bytes_of sql @ 0 # r"] by (simp add: p)
  have s2: "scan_nul (pg_Payload pkt) (Suc (length name)) = Suc (length name) + length sql"
    using scan_nul_field [OF n(2), of "bytes_of name @ [0]" r] by (simp add: p)
  have "slice (pg_Payload pkt) (Suc (length name)) (Suc (length name) + length sql) = Some (bytes_of sql)"
    using slice_at [of "bytes_of name @ [0]" "Suc (length name)" "bytes_of sql" _ "0 # r"] by (simp add: p)
  with s1 s2 t assms(2) show ?thesis
    by (simp add: ExtractSQL_def Let_def p msg_defs)
qed

text \<open>
  The two readers of a Parse message agree: whenever \<open>ParseParse\<close> returns a statement with a
  non-empty SQL text, \<open>ExtractSQL\<close> returns the same text, so the block check at prepare time and the
  prepared-statement reconstruction see the same query.
\<close>

theorem ExtractSQL_agrees:
  assumes "ParseParse pkt = Some (name, sql, True)" and "sql \<noteq> []"
  shows "ExtractSQL pkt = Some (sql, True)"
  using assms by (rule ExtractSQL_of_Parse)

theorem ExtractSQL_agrees_witness:
  "ExtractSQL \<lparr>pg_Type = MsgParse, pg_Length = 17,
     pg_Payload = bytes_of ''s1'' @ 0 # bytes_of ''SELECT 1'' @ 0 # [0], pg_Raw = []\<rparr>
   = Some (''SELECT 1'', True)"
proof (rule ExtractSQL_agrees)
  show "ParseParse \<lparr>pg_Type = MsgParse, pg_Length = 17,
     pg_Payload = bytes_of ''s1'' @ 0 # bytes_of ''SELECT 1'' @ 0 # [0], pg_Raw = []\<rparr>
     = Some (''s1'', ''SELECT 1'', True)"
    unfolding ParseParse_eq by (simp add: no_nul_def)
qed simp

text \<open>
  C27: No message makes a parser panic: \<open>ExtractSQL\<close>, \<open>ParseParse\<close>, \<open>ParseBind\<close>, \<open>ParseExecute\<close>,
  \<open>ReadyForQueryStatus\<close> and \<open>ParseDataRow\<close> return on every packet, whatever its type and payload.
\<close>

theorem pg_parsers_never_panic:
  "ExtractSQL pkt \<noteq> None \<and> ParseParse pkt \<noteq> None \<and> ParseBind pkt \<noteq> None \<and> ParseExecute pkt \<noteq> None
   \<and> ReadyForQueryStatus pkt \<noteq> None \<and> ParseDataRow pkt \<noteq> None"
  by (intro conjI ExtractSQL_returns ParseParse_returns ParseBind_returns ParseExecute_returns
      ReadyForQueryStatus_returns ParseDataRow_returns)

text \<open>
  C26: Round trip of result rows: from the wire form of a row of fewer than \<open>2 ^ 16\<close> fields, each NULL or
  shorter than \<open>2 ^ 31\<close> bytes, \<open>ParseDataRow\<close> returns exactly the non-NULL values, in order.
\<close>

theorem data_row_round_trip:
  assumes "row_ok fs" and "pg_Type pkt = MsgDataRow" and "pg_Payload pkt = row_payload fs @ r"
  shows "ParseDataRow pkt = Some (row_values fs, True)"
proof -
  have len: "length fs < 2 ^ 16" and v: "\<forall>v. Some v \<in> set fs \<longrightarrow> length v < 2 ^ 31"
    using assms(1) by (auto simp: row_ok_def)
  have "slice (pg_Payload pkt) 0 2 = Some (be_bytes 2 (length fs))"
    using assms(3) by (simp add: slice_def row_payload_def)
  moreover have "BE_Uint16 (be_bytes 2 (length fs)) = Some (of_nat (length fs))"
    using len by (simp add: BE_Uint16_def be_val_bytes)
  moreover have "unat (of_nat (length fs) :: 16 word) = length fs"
    using len by (simp add: unat_of_nat)
  moreover have "data_row_loop (pg_Payload pkt) (length fs) 2 [] = Some (row_values fs)"
    using data_row_loop_fields [OF v, of "be_bytes 2 (length fs)" r "[]"] assms(3)
    by (simp add: row_payload_def)
  ultimately show ?thesis using assms(2,3)
    by (simp add: ParseDataRow_def Let_def row_payload_def)
qed

theorem data_row_round_trip_witness:
  "ParseDataRow \<lparr>pg_Type = MsgDataRow, pg_Length = 0,
     pg_Payload = row_payload [Some (bytes_of ''alice''), None, Some (bytes_of ''42'')] @ [], pg_Raw = []\<rparr>
   = Some ([''alice'', ''42''], True)"
proof -
  let ?fs = "[Some (bytes_of ''alice''), None, Some (bytes_of ''42'')]"
  have "row_ok ?fs" by (simp add: row_ok_def)
  moreover have "row_values ?fs = [''alice'', ''42'']"
    by (simp add: row_values_def List.map_filter_def)
  ultimately show ?thesis using data_row_round_trip [of ?fs _ "[]"] by simp
qed

end
