(* ===== verification/Regexp.thy ===== *)
theory Regexp
  imports Prelude
begin

text \<open>
  What the program uses of Go's package \<open>regexp\<close>, on byte strings decoded as UTF-8: the syntax tree of
  \<open>regexp/syntax\<close>, matching with the leftmost-first preference of a backtracking search, \<open>MatchString\<close>
  and \<open>FindAllString\<close>. The executable matcher is proved equal to a declarative semantics, over which
  the properties of the rule patterns are shown.
\<close>

section \<open>UTF-8\<close>

type_synonym rune = int

definition RuneError :: rune where
  "RuneError = 0xFFFD"

text \<open>The byte at an offset; past the end it is 0, which no multi-byte encoding contains.\<close>

definition byte_at :: "bytes \<Rightarrow> nat \<Rightarrow> int" where
  "byte_at bs i = (if i < length bs then uint (bs ! i) else 0)"

definition cont :: "int \<Rightarrow> bool" where
  "cont x \<longleftrightarrow> 0x80 \<le> x \<and> x \<le> 0xBF"

text \<open>\<open>utf8.DecodeRune\<close>: the first rune and its width; an invalid encoding is \<open>RuneError\<close> of width 1.\<close>

definition DecodeRune :: "bytes \<Rightarrow> rune \<times> nat" where
  "DecodeRune bs =
     (let p0 = byte_at bs 0; p1 = byte_at bs 1; p2 = byte_at bs 2; p3 = byte_at bs 3 in
      if p0 < 0x80 then (p0, 1)
      else if 0xC2 \<le> p0 \<and> p0 \<le> 0xDF \<and> cont p1 then ((p0 - 0xC0) * 64 + (p1 - 0x80), 2)
      else if 0xE0 \<le> p0 \<and> p0 \<le> 0xEF \<and> cont p1 \<and> (p0 = 0xE0 \<longrightarrow> 0xA0 \<le> p1) \<and> (p0 = 0xED \<longrightarrow> p1 \<le> 0x9F)
              \<and> cont p2
        then ((p0 - 0xE0) * 4096 + (p1 - 0x80) * 64 + (p2 - 0x80), 3)
      else if 0xF0 \<le> p0 \<and> p0 \<le> 0xF4 \<and> cont p1 \<and> (p0 = 0xF0 \<longrightarrow> 0x90 \<le> p1) \<and> (p0 = 0xF4 \<longrightarrow> p1 \<le> 0x8F)
              \<and> cont p2 \<and> cont p3
        then ((p0 - 0xF0) * 262144 + (p1 - 0x80) * 4096 + (p2 - 0x80) * 64 + (p3 - 0x80), 4)
      else (RuneError, 1))"

text \<open>A string as the runes a matcher steps over, each with the bytes it was decoded from.\<close>

type_synonym token = "rune \<times> bytes"

lemma DecodeRune_width: "0 < snd (DecodeRune bs)"
  by (simp add: DecodeRune_def Let_def)

function runes :: "bytes \<Rightarrow> token list" where
  "runes bs = (if bs = [] then []
     else (fst (DecodeRune bs), take (snd (DecodeRune bs)) bs) # runes (drop (snd (DecodeRune bs)) bs))"
  by pat_completeness auto
termination
  by (relation "measure length") (use DecodeRune_width in auto)

declare runes.simps [simp del]

lemma runes_Nil [simp]: "runes [] = []"
  by (simp add: runes.simps)

lemma runes_bytes: "concat (map snd (runes bs)) = bs"
proof (induction bs rule: runes.induct)
  case (1 bs)
  then show ?case by (subst runes.simps) simp
qed

lemma byte_at_Cons_0 [simp]: "byte_at (b # bs) 0 = uint b"
  by (simp add: byte_at_def)

lemma runes_ascii_Cons: "uint b < 0x80 \<Longrightarrow> runes (b # bs) = (uint b, [b]) # runes bs"
  by (subst runes.simps) (simp add: DecodeRune_def Let_def)

lemma runes_ascii: "\<forall>b \<in> set bs. uint b < 0x80 \<Longrightarrow> runes bs = map (\<lambda>b. (uint b, [b])) bs"
  by (induction bs) (simp_all add: runes_ascii_Cons)

text \<open>A rune never straddles an ASCII byte, so decoding splits in front of one.\<close>

lemma DecodeRune_before_ascii:
  assumes "as \<noteq> []" and "uint b < 0x80"
  shows "DecodeRune (as @ b # bs) = DecodeRune as \<and> snd (DecodeRune as) \<le> length as"
proof -
  have n: "\<not> cont (byte_at (as @ b # bs) (length as))" "\<not> cont (byte_at as i)" if "length as \<le> i" for i
    using assms(2) that by (simp_all add: cont_def byte_at_def)
  have e: "byte_at (as @ b # bs) i = byte_at as i" if "i < length as" for i
    using that by (simp add: byte_at_def nth_append)
  consider "length as = 1" | "length as = 2" | "length as = 3" | "4 \<le> length as"
    using assms(1) by (cases "length as = 0") (simp, linarith)
  then show ?thesis
  proof cases
    case 1
    with n [of 1] n [of 2] n [of 3] assms(1) e [of 0] show ?thesis by (simp add: DecodeRune_def Let_def)
  next
    case 2
    with n [of 2] n [of 3] assms(1) e [of 0] e [of 1] show ?thesis by (simp add: DecodeRune_def Let_def)
  next
    case 3
    with n [of 3] assms(1) e [of 0] e [of 1] e [of 2] show ?thesis by (simp add: DecodeRune_def Let_def)
  next
    case 4
    with assms(1) e [of 0] e [of 1] e [of 2] e [of 3] show ?thesis by (simp add: DecodeRune_def Let_def)
  qed
qed

lemma runes_append_ascii:
  assumes "uint b < 0x80"
  shows "runes (as @ b # bs) = runes as @ runes (b # bs)"
proof (induction as rule: runes.induct)
  case (1 as)
  show ?case
  proof (cases "as = []")
    case False
    with 1 DecodeRune_before_ascii [OF False assms, of bs] show ?thesis
      by (subst (1 2) runes.simps) simp
  qed simp
qed

section \<open>Syntax\<close>

text \<open>
  The operators of \<open>regexp/syntax\<close>. A literal or a class may carry the flag \<open>FoldCase\<close>; a class is a list
  of ranges, possibly negated. Counted repetition is expanded by the parser, as \<open>Simplify\<close> does, and
  groups only shape the tree. The flag of the repetitions says whether they are greedy.
\<close>

datatype regexp =
  NoMatch
| EmptyMatch
| Literal bool rune
| CharClass bool bool "(rune \<times> rune) list"
| AnyChar
| AnyCharNotNL
| BeginLine
| EndLine
| BeginText
| EndText
| WordBoundary
| NoWordBoundary
| Concat regexp regexp
| Alternate regexp regexp
| Quest bool regexp
| Star bool regexp

definition Plus :: "bool \<Rightarrow> regexp \<Rightarrow> regexp" where
  "Plus greedy re = Concat re (Star greedy re)"

text \<open>
  The runes equal to an ASCII rune under simple case folding. Two of them lie outside ASCII: the
  long s (U+017F) and the Kelvin sign (U+212A).
\<close>

definition fold_orbit :: "rune \<Rightarrow> rune list" where
  "fold_orbit r =
     (if r \<in> set [75, 107, 0x212A] then [75, 107, 0x212A]
      else if r \<in> set [83, 115, 0x17F] then [83, 115, 0x17F]
      else if 65 \<le> r \<and> r \<le> 90 then [r, r + 32]
      else if 97 \<le> r \<and> r \<le> 122 then [r - 32, r]
      else [r])"

definition in_ranges :: "(rune \<times> rune) list \<Rightarrow> rune \<Rightarrow> bool" where
  "in_ranges rs r \<longleftrightarrow> list_ex (\<lambda>(lo, hi). lo \<le> r \<and> r \<le> hi) rs"

definition in_class :: "bool \<Rightarrow> bool \<Rightarrow> (rune \<times> rune) list \<Rightarrow> rune \<Rightarrow> bool" where
  "in_class fc neg rs r \<longleftrightarrow> list_ex (in_ranges rs) (if fc then fold_orbit r else [r]) \<noteq> neg"

definition IsWordChar :: "rune \<Rightarrow> bool" where
  "IsWordChar r \<longleftrightarrow> 97 \<le> r \<and> r \<le> 122 \<or> 65 \<le> r \<and> r \<le> 90 \<or> 48 \<le> r \<and> r \<le> 57 \<or> r = 95"

section \<open>Matching\<close>

text \<open>A position in the text: the rune before it, if any, and the tokens after it.\<close>

type_synonym cursor = "rune option \<times> token list"

fun next_rune :: "cursor \<Rightarrow> rune option" where
  "next_rune (p, []) = None"
| "next_rune (p, (r, b) # ts) = Some r"

definition word_at :: "rune option \<Rightarrow> bool" where
  "word_at x \<longleftrightarrow> (case x of Some r \<Rightarrow> IsWordChar r | None \<Rightarrow> False)"

definition boundary :: "cursor \<Rightarrow> bool" where
  "boundary c \<longleftrightarrow> word_at (fst c) \<noteq> word_at (next_rune c)"

definition no_boundary :: "cursor \<Rightarrow> bool" where
  "no_boundary c \<longleftrightarrow> \<not> boundary c"

definition at_text_begin :: "cursor \<Rightarrow> bool" where
  "at_text_begin c \<longleftrightarrow> fst c = None"

definition at_text_end :: "cursor \<Rightarrow> bool" where
  "at_text_end c \<longleftrightarrow> next_rune c = None"

definition at_line_begin :: "cursor \<Rightarrow> bool" where
  "at_line_begin c \<longleftrightarrow> fst c = None \<or> fst c = Some 10"

definition at_line_end :: "cursor \<Rightarrow> bool" where
  "at_line_end c \<longleftrightarrow> next_rune c = None \<or> next_rune c = Some 10"

lemmas assertion_defs =
  no_boundary_def at_text_begin_def at_text_end_def at_line_begin_def at_line_end_def

definition is_literal :: "bool \<Rightarrow> rune \<Rightarrow> rune \<Rightarrow> bool" where
  "is_literal fc r x \<longleftrightarrow> (if fc then r \<in> set (fold_orbit x) else x = r)"

definition any_rune :: "rune \<Rightarrow> bool" where
  "any_rune x \<longleftrightarrow> True"

definition not_newline :: "rune \<Rightarrow> bool" where
  "not_newline x \<longleftrightarrow> x \<noteq> 10"

lemmas rune_tests = is_literal_def any_rune_def not_newline_def

fun step_rune :: "(rune \<Rightarrow> bool) \<Rightarrow> cursor \<Rightarrow> cursor list" where
  "step_rune P (p, []) = []"
| "step_rune P (p, (r, b) # ts) = (if P r then [(Some r, ts)] else [])"

definition assertion :: "(cursor \<Rightarrow> bool) \<Rightarrow> cursor \<Rightarrow> cursor list" where
  "assertion P c = (if P c then [c] else [])"

text \<open>
  The iterations of a star in order of preference. An iteration that consumes nothing is not
  followed, so as many rounds as there are tokens left are enough.
\<close>

primrec star_ends :: "(cursor \<Rightarrow> cursor list) \<Rightarrow> bool \<Rightarrow> nat \<Rightarrow> cursor \<Rightarrow> cursor list" where
  "star_ends f greedy 0 c = [c]"
| "star_ends f greedy (Suc n) c =
     (let longer = concat (map (star_ends f greedy n)
                     (filter (\<lambda>c'. length (snd c') < length (snd c)) (f c)))
      in if greedy then longer @ [c] else c # longer)"

text \<open>The ends of the matches that start at a position, the preferred one first.\<close>

fun ends :: "regexp \<Rightarrow> cursor \<Rightarrow> cursor list" where
  "ends NoMatch c = []"
| "ends EmptyMatch c = [c]"
| "ends (Literal fc r) c = step_rune (is_literal fc r) c"
| "ends (CharClass fc neg rs) c = step_rune (in_class fc neg rs) c"
| "ends AnyChar c = step_rune any_rune c"
| "ends AnyCharNotNL c = step_rune not_newline c"
| "ends BeginLine c = assertion at_line_begin c"
| "ends EndLine c = assertion at_line_end c"
| "ends BeginText c = assertion at_text_begin c"
| "ends EndText c = assertion at_text_end c"
| "ends WordBoundary c = assertion boundary c"
| "ends NoWordBoundary c = assertion no_boundary c"
| "ends (Concat a b) c = concat (map (ends b) (ends a c))"
| "ends (Alternate a b) c = ends a c @ ends b c"
| "ends (Quest greedy a) c = (if greedy then ends a c @ [c] else c # ends a c)"
| "ends (Star greedy a) c = star_ends (ends a) greedy (length (snd c)) c"

text \<open>The leftmost match: the tokens skipped in front of it, and its end.\<close>

fun find_from :: "regexp \<Rightarrow> rune option \<Rightarrow> token list \<Rightarrow> (token list \<times> cursor) option" where
  "find_from re p ts =
     (case ends re (p, ts) of
        c # _ \<Rightarrow> Some ([], c)
      | [] \<Rightarrow> (case ts of
           [] \<Rightarrow> None
         | (r, b) # ts' \<Rightarrow> (case find_from re (Some r) ts' of
              None \<Rightarrow> None | Some (skipped, c) \<Rightarrow> Some ((r, b) # skipped, c))))"

declare find_from.simps [simp del]

definition MatchString :: "regexp \<Rightarrow> string \<Rightarrow> bool" where
  "MatchString re s \<longleftrightarrow> find_from re None (runes (bytes_of s)) \<noteq> None"

section \<open>Declarative semantics\<close>

inductive match_re :: "regexp \<Rightarrow> cursor \<Rightarrow> cursor \<Rightarrow> bool" where
  empty: "match_re EmptyMatch c c"
| literal: "is_literal fc r x \<Longrightarrow>
     match_re (Literal fc r) (p, (x, b) # ts) (Some x, ts)"
| char_class: "in_class fc neg rs x \<Longrightarrow> match_re (CharClass fc neg rs) (p, (x, b) # ts) (Some x, ts)"
| any_char: "match_re AnyChar (p, (x, b) # ts) (Some x, ts)"
| any_char_not_nl: "x \<noteq> 10 \<Longrightarrow> match_re AnyCharNotNL (p, (x, b) # ts) (Some x, ts)"
| begin_line: "p = None \<or> p = Some 10 \<Longrightarrow> match_re BeginLine (p, ts) (p, ts)"
| end_line: "next_rune c = None \<or> next_rune c = Some 10 \<Longrightarrow> match_re EndLine c c"
| begin_text: "match_re BeginText (None, ts) (None, ts)"
| end_text: "next_rune c = None \<Longrightarrow> match_re EndText c c"
| word_boundary: "boundary c \<Longrightarrow> match_re WordBoundary c c"
| no_word_boundary: "\<not> boundary c \<Longrightarrow> match_re NoWordBoundary c c"
| concat: "match_re a c1 c2 \<Longrightarrow> match_re b c2 c3 \<Longrightarrow> match_re (Concat a b) c1 c3"
| left: "match_re a c1 c2 \<Longrightarrow> match_re (Alternate a b) c1 c2"
| right: "match_re b c1 c2 \<Longrightarrow> match_re (Alternate a b) c1 c2"
| none: "match_re (Quest g a) c c"
| once: "match_re a c1 c2 \<Longrightarrow> match_re (Quest g a) c1 c2"
| stop: "match_re (Star g a) c c"
| again: "match_re a c1 c2 \<Longrightarrow> match_re (Star g a) c2 c3 \<Longrightarrow> match_re (Star g a) c1 c3"

inductive_cases match_starE: "match_re (Star g a) c1 c2"

inductive_simps match_simps [simp]:
  "match_re NoMatch c1 c2"
  "match_re EmptyMatch c1 c2"
  "match_re (Literal fc r) c1 c2"
  "match_re (CharClass fc neg rs) c1 c2"
  "match_re AnyChar c1 c2"
  "match_re AnyCharNotNL c1 c2"
  "match_re BeginLine c1 c2"
  "match_re EndLine c1 c2"
  "match_re BeginText c1 c2"
  "match_re EndText c1 c2"
  "match_re WordBoundary c1 c2"
  "match_re NoWordBoundary c1 c2"
  "match_re (Concat a b) c1 c2"
  "match_re (Alternate a b) c1 c2"
  "match_re (Quest g a) c1 c2"

text \<open>The position after reading some tokens.\<close>

definition last_rune :: "rune option \<Rightarrow> token list \<Rightarrow> rune option" where
  "last_rune p ts = (if ts = [] then p else Some (fst (last ts)))"

lemma last_rune_simps [simp]:
  "last_rune p [] = p" "last_rune p (ts @ [(r, b)]) = Some r" "last_rune p [(r, b)] = Some r"
  by (simp_all add: last_rune_def)

lemma last_rune_Cons: "last_rune p ((r, b) # ts) = last_rune (Some r) ts"
  by (simp add: last_rune_def)

lemma last_rune_append [simp]: "last_rune p (xs @ ys) = last_rune (last_rune p xs) ys"
  by (simp add: last_rune_def)

definition follows :: "cursor \<Rightarrow> cursor \<Rightarrow> bool" where
  "follows c c' \<longleftrightarrow> (\<exists>ts. snd c = ts @ snd c' \<and> fst c' = last_rune (fst c) ts)"

lemma follows_refl [simp]: "follows c c"
  by (auto simp: follows_def intro: exI [of _ "[]"])

lemma follows_trans: "follows a b \<Longrightarrow> follows b c \<Longrightarrow> follows a c"
  by (auto simp: follows_def)

lemma follows_step [simp]: "follows (p, (r, b) # ts) (Some r, ts)"
  by (auto simp: follows_def intro: exI [of _ "[(r, b)]"])

lemma match_follows: "match_re re c c' \<Longrightarrow> follows c c'"
  by (induction rule: match_re.induct) (auto intro: follows_trans)

lemma follows_same: "follows c c' \<Longrightarrow> length (snd c) \<le> length (snd c') \<Longrightarrow> c' = c"
  by (cases c; cases c') (auto simp: follows_def)

lemma follows_length: "follows c c' \<Longrightarrow> length (snd c') \<le> length (snd c)"
  by (auto simp: follows_def)

section \<open>The matcher agrees with the semantics\<close>

lemma set_step_rune: "c' \<in> set (step_rune P c) \<longleftrightarrow> (\<exists>p r b ts. c = (p, (r, b) # ts) \<and> P r \<and> c' = (Some r, ts))"
  by (cases "(P, c)" rule: step_rune.cases) auto

lemma set_assertion: "c' \<in> set (assertion P c) \<longleftrightarrow> P c \<and> c' = c"
  by (auto simp: assertion_def)

lemma set_star_ends_Suc:
  "c' \<in> set (star_ends f g (Suc n) c) \<longleftrightarrow>
     c' = c \<or> (\<exists>c1 \<in> set (f c). length (snd c1) < length (snd c) \<and> c' \<in> set (star_ends f g n c1))"
  by (auto simp: Let_def)

declare star_ends.simps(2) [simp del]

lemma star_ends_mono: "c' \<in> set (star_ends f g n c) \<Longrightarrow> c' \<in> set (star_ends f g (n + k) c)"
proof (induction n arbitrary: c)
  case 0
  then show ?case by (cases k) (simp_all add: set_star_ends_Suc)
next
  case (Suc n)
  then show ?case by (auto simp: set_star_ends_Suc)
qed

lemma star_ends_sound:
  assumes "\<And>c c'. c' \<in> set (f c) \<Longrightarrow> match_re a c c'"
  shows "c' \<in> set (star_ends f g n c) \<Longrightarrow> match_re (Star g a) c c'"
proof (induction n arbitrary: c)
  case 0
  then show ?case by (simp add: match_re.stop)
next
  case (Suc n)
  then consider "c' = c" | c1 where "c1 \<in> set (f c)" "c' \<in> set (star_ends f g n c1)"
    by (auto simp: set_star_ends_Suc simp del: split_paired_Ex split_paired_All)
  then show ?case using assms Suc.IH match_re.stop match_re.again by cases blast+
qed

lemma ends_sound: "c' \<in> set (ends re c) \<Longrightarrow> match_re re c c'"
proof (induction re arbitrary: c c')
  case (Star g a)
  then show ?case using star_ends_sound [of "ends a" a] by simp
next
  case (BeginLine)
  then show ?case by (cases c) (auto simp: set_assertion assertion_defs)
next
  case (BeginText)
  then show ?case by (cases c) (auto simp: set_assertion assertion_defs)
next
  case (Concat a b)
  from Concat.prems obtain c1 where "c1 \<in> set (ends a c)" "c' \<in> set (ends b c1)" by auto
  with Concat.IH show ?case by (meson match_re.concat)
qed (auto simp: set_step_rune set_assertion assertion_defs rune_tests split: if_splits)

lemma ends_complete: "match_re re c c' \<Longrightarrow> c' \<in> set (ends re c)"
proof (induction rule: match_re.induct)
  case (stop g a c)
  then show ?case by (cases "length (snd c)") (simp_all add: set_star_ends_Suc)
next
  case (again a c1 c2 g c3)
  have "follows c1 c2" using again.hyps(1) by (rule match_follows)
  show ?case
  proof (cases "length (snd c2) < length (snd c1)")
    case True
    then obtain k where k: "length (snd c1) = Suc (length (snd c2) + k)"
      using less_iff_Suc_add by auto
    have "c3 \<in> set (star_ends (ends a) g (length (snd c2) + k) c2)"
      using again.IH(2) by (intro star_ends_mono) simp
    with True k again.IH(1) show ?thesis by (auto simp: set_star_ends_Suc)
  next
    case False
    then have "c2 = c1" using \<open>follows c1 c2\<close> by (intro follows_same) auto
    with again.IH(2) show ?thesis by simp
  qed
qed (auto simp: set_step_rune set_assertion assertion_defs rune_tests)

lemma ends_iff: "c' \<in> set (ends re c) \<longleftrightarrow> match_re re c c'"
  using ends_sound ends_complete by blast

lemma no_ends: "ends re c = [] \<longleftrightarrow> (\<forall>c'. \<not> match_re re c c')"
  by (metis ends_iff last_in_set list.set(1) empty_iff)

lemma split_Cons_all:
  "(\<forall>pre post c. t # ts = pre @ post \<longrightarrow> Q pre post c) \<longleftrightarrow>
     (\<forall>c. Q [] (t # ts) c) \<and> (\<forall>pre post c. ts = pre @ post \<longrightarrow> Q (t # pre) post c)"
proof (intro iffI conjI allI impI)
  fix pre post c
  assume a: "(\<forall>c. Q [] (t # ts) c) \<and> (\<forall>pre post c. ts = pre @ post \<longrightarrow> Q (t # pre) post c)"
    and e: "t # ts = pre @ post"
  then show "Q pre post c" by (cases pre) auto
qed (metis append_Nil, metis append_Cons)

lemma find_from_None:
  "find_from re p ts = None \<longleftrightarrow> (\<forall>pre post c. ts = pre @ post \<longrightarrow> \<not> match_re re (last_rune p pre, post) c)"
proof (induction ts arbitrary: p)
  case Nil
  show ?case using no_ends [of re "(p, [])"]
    by (cases "ends re (p, [])") (simp_all add: find_from.simps [of re p "[]"])
next
  case (Cons t ts)
  obtain r b where t: "t = (r, b)" by (cases t)
  have "(\<forall>pre post c. t # ts = pre @ post \<longrightarrow> \<not> match_re re (last_rune p pre, post) c)
      \<longleftrightarrow> (\<forall>c. \<not> match_re re (p, t # ts) c)
        \<and> (\<forall>pre post c. ts = pre @ post \<longrightarrow> \<not> match_re re (last_rune (Some r) pre, post) c)"
    unfolding split_Cons_all by (simp add: t last_rune_Cons)
  moreover have "find_from re p (t # ts) = None
      \<longleftrightarrow> ends re (p, t # ts) = [] \<and> find_from re (Some r) ts = None"
    unfolding t by (simp add: find_from.simps [of re p "(r, b) # ts"] split: list.split option.split)
  ultimately show ?case unfolding Cons.IH no_ends by simp
qed

lemma MatchString_iff:
  "MatchString re s \<longleftrightarrow>
     (\<exists>pre post c. runes (bytes_of s) = pre @ post \<and> match_re re (last_rune None pre, post) c)"
  by (simp add: MatchString_def find_from_None)

section \<open>All matches\<close>

lemma find_from_Some:
  assumes "find_from re p ts = Some (skipped, c)"
  shows "\<exists>post. ts = skipped @ post \<and> match_re re (last_rune p skipped, post) c"
  using assms
proof (induction ts arbitrary: p skipped)
  case Nil
  then show ?case
    using ends_iff [of c re "(p, [])"] by (auto simp: find_from.simps [of re p "[]"] split: list.splits)
next
  case (Cons t ts)
  obtain r b where t: "t = (r, b)" by (cases t)
  show ?case
  proof (cases "ends re (p, t # ts)")
    case (Cons c' cs)
    then have "match_re re (p, t # ts) c'" by (simp add: ends_iff [symmetric])
    with Cons.prems Cons show ?thesis by (simp add: find_from.simps [of re p "t # ts"])
  next
    case Nil
    with Cons.prems t obtain sk where "find_from re (Some r) ts = Some (sk, c)" "skipped = t # sk"
      by (auto simp: find_from.simps [of re p "(r, b) # ts"] split: option.splits)
    with Cons.IH [of "Some r" sk] t show ?thesis by (auto simp: last_rune_Cons)
  qed
qed

lemma find_from_shorter:
  "find_from re p ts = Some (skipped, (p', ts')) \<Longrightarrow> length ts' \<le> length ts"
  using find_from_Some [of re p ts skipped "(p', ts')"] match_follows follows_length
  by fastforce

text \<open>
  The loop of \<open>FindAllString\<close>: \<open>just\<close> says that the previous match ended here, in which case an empty
  match is not reported; after an empty match at the current position the search moves one rune on.
\<close>

function all_from :: "regexp \<Rightarrow> bool \<Rightarrow> rune option \<Rightarrow> token list \<Rightarrow> token list list" where
  "all_from re just p ts =
     (case find_from re p ts of
        None \<Rightarrow> []
      | Some (skipped, (p', ts')) \<Rightarrow>
          if length ts' = length ts
          then (if just then [] else [[]])
               @ (case ts of [] \<Rightarrow> [] | (r, b) # rest \<Rightarrow> all_from re False (Some r) rest)
          else take (length ts - length skipped - length ts') (drop (length skipped) ts)
               # all_from re True p' ts')"
  by pat_completeness auto
termination
  by (relation "measure (\<lambda>(re, just, p, ts). length ts)")
    (auto dest: find_from_shorter simp: order_less_le)

declare all_from.simps [simp del]

definition FindAllString :: "regexp \<Rightarrow> string \<Rightarrow> string list" where
  "FindAllString re s = map (\<lambda>m. str_of (concat (map snd m))) (all_from re False None (runes (bytes_of s)))"

section \<open>ASCII text\<close>

definition rune_of :: "char \<Rightarrow> rune" where
  "rune_of c = of_char c"

definition ascii :: "string \<Rightarrow> bool" where
  "ascii s \<longleftrightarrow> list_all (\<lambda>c. rune_of c < 128) s"

definition tokens :: "string \<Rightarrow> token list" where
  "tokens s = map (\<lambda>c. (rune_of c, [byte_of_char c])) s"

lemma ascii_simps [simp]:
  "ascii []" "ascii (c # s) \<longleftrightarrow> rune_of c < 128 \<and> ascii s" "ascii (s @ t) \<longleftrightarrow> ascii s \<and> ascii t"
  by (simp_all add: ascii_def)

lemma tokens_simps [simp]:
  "tokens [] = []" "tokens (c # s) = (rune_of c, [byte_of_char c]) # tokens s"
  "tokens (s @ t) = tokens s @ tokens t"
  by (simp_all add: tokens_def)

lemma tokens_bytes: "concat (map snd (tokens s)) = bytes_of s"
  by (induction s) (simp_all add: bytes_of_def)

lemma uint_byte_of_char: "uint (byte_of_char c) = rune_of c"
  by (metis uint_nat unat_byte_of_char of_nat_of_char rune_of_def)

lemma runes_tokens: "ascii s \<Longrightarrow> runes (bytes_of s @ bs) = tokens s @ runes bs"
  by (induction s) (simp_all add: bytes_of_def runes_ascii_Cons uint_byte_of_char)

lemma runes_of_ascii: "ascii s \<Longrightarrow> runes (bytes_of s) = tokens s"
  using runes_tokens [of s "[]"] by simp

text \<open>ASCII text inside arbitrary bytes decodes to its characters.\<close>

lemma runes_around_ascii:
  assumes "ascii s" and "s \<noteq> []"
  shows "runes (bytes_of (pre @ s @ post)) = runes (bytes_of pre) @ tokens s @ runes (bytes_of post)"
proof -
  obtain c s' where s: "s = c # s'" using assms(2) by (cases s) auto
  have "uint (byte_of_char c) < 0x80" using assms(1) s by (simp add: uint_byte_of_char)
  from runes_append_ascii [OF this, of "bytes_of pre" "bytes_of (s' @ post)"]
  have "runes (bytes_of (pre @ s @ post)) = runes (bytes_of pre) @ runes (bytes_of (s @ post))"
    by (simp add: s bytes_of_def)
  then show ?thesis using runes_tokens [OF assms(1)] by simp
qed

lemma MatchString_ascii: "ascii s \<Longrightarrow> MatchString re s \<longleftrightarrow> find_from re None (tokens s) \<noteq> None"
  by (simp add: MatchString_def runes_of_ascii)

lemma MatchStringI:
  assumes "ascii s" and "s \<noteq> []"
    and "match_re re (last_rune None (runes (bytes_of pre)), tokens s @ runes (bytes_of post)) c"
  shows "MatchString re (pre @ s @ post)"
  unfolding MatchString_iff runes_around_ascii [OF assms(1,2)] using assms(3) by blast

lemma MatchString_prefixI:
  assumes "ascii s" and "s \<noteq> []" and "match_re re (None, tokens s @ runes (bytes_of post)) c"
  shows "MatchString re (s @ post)"
  using MatchStringI [of s re "[]" post c] assms by simp

lemma MatchString_code [code]:
  "MatchString re s \<longleftrightarrow> find_from re None (if ascii s then tokens s else runes (bytes_of s)) \<noteq> None"
  by (simp add: MatchString_def runes_of_ascii)

lemma FindAllString_code [code]:
  "FindAllString re s = map (\<lambda>m. str_of (concat (map snd m)))
     (all_from re False None (if ascii s then tokens s else runes (bytes_of s)))"
  by (simp add: FindAllString_def runes_of_ascii)

section \<open>Lower case\<close>

definition lower_char :: "char \<Rightarrow> char" where
  "lower_char c = (if 65 \<le> rune_of c \<and> rune_of c \<le> 90 then char_of (rune_of c + 32) else c)"

text \<open>\<open>strings.ToLower\<close>: ASCII strings bytewise, any other through the Unicode tables (\<open>lower\<close>).\<close>

definition ToLower :: "(string \<Rightarrow> string) \<Rightarrow> string \<Rightarrow> string" where
  "ToLower lower s = (if ascii s then map lower_char s else lower s)"

end
