(* ===== verification/Engine.thy ===== *)
theory Engine
  imports Regexp
begin

text \<open>
  The rule engine (\<open>engine/engine.go\<close>). The sink is a callback of the program's environment, so an
  engine is parameterised by the type \<open>'w\<close> of the world it acts on. \<open>strings.EqualFold\<close> depends on the
  Unicode case tables, which are the parameter \<open>fold_rune\<close>: it sends a rune to the representative of its
  orbit under simple folding.
\<close>

section \<open>Rules\<close>

definition ActionAllow :: string where "ActionAllow = ''allow''"
definition ActionIgnore :: string where "ActionIgnore = ''ignore''"
definition ActionAlert :: string where "ActionAlert = ''alert''"
definition ActionBlock :: string where "ActionBlock = ''block''"

lemmas action_defs = ActionAllow_def ActionIgnore_def ActionAlert_def ActionBlock_def

record decision =
  d_Action :: string
  d_Rule :: string

record rule =
  r_Name :: string
  r_Action :: string
  r_SQLPattern :: "regexp option"
  r_Users :: "string list"
  r_Databases :: "string list"

definition EqualFold :: "(rune \<Rightarrow> rune) \<Rightarrow> string \<Rightarrow> string \<Rightarrow> bool" where
  "EqualFold fold_rune s t \<longleftrightarrow>
     map (\<lambda>(r, b). fold_rune r) (runes (bytes_of s)) = map (\<lambda>(r, b). fold_rune r) (runes (bytes_of t))"

text \<open>The representatives for the orbits of the ASCII runes.\<close>

definition ascii_fold :: "rune \<Rightarrow> rune" where
  "ascii_fold r = hd (fold_orbit r)"

text \<open>The search for a user or a database in a filter.\<close>

fun found_in :: "(rune \<Rightarrow> rune) \<Rightarrow> string list \<Rightarrow> string \<Rightarrow> bool" where
  "found_in fold_rune [] x = False"
| "found_in fold_rune (u # us) x = (if EqualFold fold_rune u x then True else found_in fold_rune us x)"

definition rule_matches :: "(rune \<Rightarrow> rune) \<Rightarrow> rule \<Rightarrow> string \<Rightarrow> string \<Rightarrow> string \<Rightarrow> bool" where
  "rule_matches fold_rune r sql username database =
     (if r_Users r \<noteq> [] \<and> \<not> found_in fold_rune (r_Users r) username then False
      else if r_Databases r \<noteq> [] \<and> \<not> found_in fold_rune (r_Databases r) database then False
      else (case r_SQLPattern r of
              Some re \<Rightarrow> MatchString re sql
            | None \<Rightarrow> True))"

section \<open>The engine\<close>

text \<open>A \<open>time.Time\<close> is the number of nanoseconds since the zero time, 1 January of year 1 in UTC.\<close>

record query_meta =
  Source :: string
  ConnID :: "64 word"
  EventTime :: int
  Seq :: "64 word"
  TxnStatus :: string
  Tokens :: "string list"
  Result :: string

type_synonym 'w event_sink = "string \<Rightarrow> string \<Rightarrow> string \<Rightarrow> query_meta \<Rightarrow> 'w \<Rightarrow> 'w"

record 'w engine =
  rules :: "rule list"
  sink :: "'w event_sink option"

definition New :: "rule list \<Rightarrow> 'w engine" where
  "New rs = \<lparr>rules = rs, sink = None\<rparr>"

definition SetSink :: "'w event_sink option \<Rightarrow> 'w engine \<Rightarrow> 'w engine" where
  "SetSink s e = e\<lparr>sink := s\<rparr>"

definition Reload :: "rule list \<Rightarrow> 'w engine \<Rightarrow> 'w engine" where
  "Reload rs e = e\<lparr>rules := rs\<rparr>"

definition Emit :: "'w engine \<Rightarrow> string \<Rightarrow> string \<Rightarrow> string \<Rightarrow> query_meta \<Rightarrow> 'w \<Rightarrow> 'w" where
  "Emit e action ruleName sql meta w =
     (case sink e of
        Some s \<Rightarrow> if action \<noteq> ActionIgnore then s action ruleName sql meta w else w
      | None \<Rightarrow> w)"

text \<open>The loops of \<open>Evaluate\<close> and \<open>Decide\<close> over the rules read under the lock.\<close>

fun evaluate_rules :: "(rune \<Rightarrow> rune) \<Rightarrow> rule list \<Rightarrow> 'w event_sink option \<Rightarrow> string \<Rightarrow> string \<Rightarrow> string \<Rightarrow>
    query_meta \<Rightarrow> 'w \<Rightarrow> decision \<times> 'w" where
  "evaluate_rules fold_rune [] snk sql username database meta w =
     (let d = \<lparr>d_Action = ActionAllow, d_Rule = ''default-allow''\<rparr> in
      (d, case snk of Some s \<Rightarrow> s (d_Action d) (d_Rule d) sql meta w | None \<Rightarrow> w))"
| "evaluate_rules fold_rune (r # rs) snk sql username database meta w =
     (if rule_matches fold_rune r sql username database
      then let d = \<lparr>d_Action = r_Action r, d_Rule = r_Name r\<rparr> in
        (d, case snk of
              Some s \<Rightarrow> if d_Action d \<noteq> ActionIgnore then s (d_Action d) (d_Rule d) sql meta w else w
            | None \<Rightarrow> w)
      else evaluate_rules fold_rune rs snk sql username database meta w)"

definition Evaluate :: "(rune \<Rightarrow> rune) \<Rightarrow> 'w engine \<Rightarrow> string \<Rightarrow> string \<Rightarrow> string \<Rightarrow> query_meta \<Rightarrow> 'w \<Rightarrow>
    decision \<times> 'w" where
  "Evaluate fold_rune e sql username database meta w =
     evaluate_rules fold_rune (rules e) (sink e) sql username database meta w"

fun decide_rules :: "(rune \<Rightarrow> rune) \<Rightarrow> rule list \<Rightarrow> string \<Rightarrow> string \<Rightarrow> string \<Rightarrow> decision" where
  "decide_rules fold_rune [] sql username database =
     \<lparr>d_Action = ActionAllow, d_Rule = ''default-allow''\<rparr>"
| "decide_rules fold_rune (r # rs) sql username database =
     (if rule_matches fold_rune r sql username database
      then \<lparr>d_Action = r_Action r, d_Rule = r_Name r\<rparr>
      else decide_rules fold_rune rs sql username database)"

definition Decide :: "(rune \<Rightarrow> rune) \<Rightarrow> 'w engine \<Rightarrow> string \<Rightarrow> string \<Rightarrow> string \<Rightarrow> decision" where
  "Decide fold_rune e sql username database = decide_rules fold_rune (rules e) sql username database"

section \<open>First-match policies\<close>

text \<open>
  An ordered rule list is a policy that answers with the first rule that applies, or with a default.
  Its laws: splitting a list, rules that cannot matter, and a block of rules with one verdict in front.
\<close>

locale first_match =
  fixes decide :: "'r list \<Rightarrow> 'q \<Rightarrow> 'v" and applies :: "'r \<Rightarrow> 'q \<Rightarrow> bool"
    and verdict :: "'r \<Rightarrow> 'v" and default :: 'v
  assumes decide_Nil: "decide [] q = default"
    and decide_Cons: "decide (r # rs) q = (if applies r q then verdict r else decide rs q)"
begin

lemma decide_append:
  "decide (rs @ ss) q = (if list_ex (\<lambda>r. applies r q) rs then decide rs q else decide ss q)"
  by (induction rs) (auto simp: decide_Nil decide_Cons)

lemma decide_none: "\<forall>r \<in> set rs. \<not> applies r q \<Longrightarrow> decide rs q = default"
  by (induction rs) (auto simp: decide_Nil decide_Cons)

lemma decide_first: "\<forall>r \<in> set rs. \<not> applies r q \<Longrightarrow> applies r q \<Longrightarrow> decide (rs @ r # ss) q = verdict r"
  by (induction rs) (auto simp: decide_Cons)

lemma decide_cases:
  "decide rs q = default \<and> (\<forall>r \<in> set rs. \<not> applies r q) \<or>
   (\<exists>as r bs. rs = as @ r # bs \<and> (\<forall>a \<in> set as. \<not> applies a q) \<and> applies r q \<and> decide rs q = verdict r)"
proof (cases "\<exists>r \<in> set rs. applies r q")
  case True
  from split_list_first_prop [OF this] show ?thesis using decide_first by blast
next
  case False
  then show ?thesis using decide_none by blast
qed

text \<open>If every rule of a front block gives a verdict in \<open>V\<close> and one of them applies, so is the answer.\<close>

lemma decide_dominated:
  assumes "\<forall>r \<in> set front. verdict r \<in> V" and "\<exists>r \<in> set front. applies r q"
  shows "decide (front @ behind) q \<in> V"
  using decide_cases [of front q] assms by (auto simp: decide_append list_ex_iff)

lemma decide_remove: "\<not> applies r q \<Longrightarrow> decide (rs @ r # ss) q = decide (rs @ ss) q"
  by (auto simp: decide_append decide_Cons)

lemma decide_shadowed:
  "r \<in> set front \<Longrightarrow> applies r q \<Longrightarrow> decide (front @ behind) q = decide front q"
  by (auto simp: decide_append list_ex_iff)

end

interpretation policy: first_match
  "\<lambda>rs (sql, username, database). decide_rules fold_rune rs sql username database"
  "\<lambda>r (sql, username, database). rule_matches fold_rune r sql username database"
  "\<lambda>r. \<lparr>d_Action = r_Action r, d_Rule = r_Name r\<rparr>"
  "\<lparr>d_Action = ActionAllow, d_Rule = ''default-allow''\<rparr>"
  for fold_rune
  by unfold_locales auto

lemma evaluate_rules_eq:
  "evaluate_rules fold_rune rs snk sql username database meta w =
     (let d = decide_rules fold_rune rs sql username database in
      (d, Emit \<lparr>rules = rs, sink = snk\<rparr> (d_Action d) (d_Rule d) sql meta w))"
  by (induction rs) (auto simp: Emit_def Let_def action_defs split: option.split)

section \<open>Properties\<close>

text \<open>
  C4: \<open>Evaluate\<close> is \<open>Decide\<close> followed by \<open>Emit\<close> of the decision: the check made when a statement is
  prepared and the event sent when it is executed never disagree with the one-step evaluation, on any
  rule set, sink and query.
\<close>

theorem Evaluate_is_Decide_then_Emit:
  "Evaluate fold_rune e sql username database meta w =
     (let d = Decide fold_rune e sql username database in
      (d, Emit e (d_Action d) (d_Rule d) sql meta w))"
  by (simp add: Evaluate_def Decide_def evaluate_rules_eq Emit_def)

text \<open>
  C5: the answer is the first rule that matches, and \<open>default-allow\<close> exactly when none does: either no
  rule matches and the decision is the default, or the rule list splits at a matching rule with no
  matching rule in front and the decision carries that rule's action and name.
\<close>

theorem Decide_first_match:
  "(list_all (\<lambda>a. \<not> rule_matches fold_rune a sql username database) (rules e)
      \<and> Decide fold_rune e sql username database = \<lparr>d_Action = ActionAllow, d_Rule = ''default-allow''\<rparr>)
   \<or> (\<exists>as r bs. rules e = as @ r # bs
      \<and> list_all (\<lambda>a. \<not> rule_matches fold_rune a sql username database) as
      \<and> rule_matches fold_rune r sql username database
      \<and> Decide fold_rune e sql username database = \<lparr>d_Action = r_Action r, d_Rule = r_Name r\<rparr>)"
  using policy.decide_cases [of fold_rune "rules e" "(sql, username, database)"]
  by (auto simp: Decide_def list_all_iff)

text \<open>A rule scoped to other users or databases decides as if it were not in the list.\<close>

lemma found_in_iff: "found_in fold_rune us x \<longleftrightarrow> list_ex (\<lambda>u. EqualFold fold_rune u x) us"
  by (induction us) auto

lemma out_of_scope_rule_inert:
  assumes "r_Users r \<noteq> [] \<and> \<not> list_ex (\<lambda>u. EqualFold fold_rune u user) (r_Users r)
      \<or> r_Databases r \<noteq> [] \<and> \<not> list_ex (\<lambda>d. EqualFold fold_rune d db) (r_Databases r)"
  shows "Decide fold_rune (New (as @ r # bs) :: 'w engine) sql user db
     = Decide fold_rune (New (as @ bs) :: 'w engine) sql user db"
proof -
  have "\<not> rule_matches fold_rune r sql user db"
    using assms by (auto simp: rule_matches_def found_in_iff)
  then show ?thesis by (induction as) (simp_all add: Decide_def New_def)
qed

text \<open>A sink that records the events it is given.\<close>

type_synonym event = "string \<times> string \<times> string \<times> query_meta"

definition log_event :: "event list event_sink" where
  "log_event action name sql meta log = log @ [(action, name, sql, meta)]"

text \<open>
  each evaluation sends exactly one event to the sink, the one of its decision with the query and
  its metadata, and none when the matching rule's action is \<open>ignore\<close> or no sink is set.
\<close>

theorem Evaluate_emits_once:
  "Evaluate fold_rune (SetSink snk e) sql username database meta log =
     (let d = Decide fold_rune e sql username database in
      (d, if snk = Some log_event \<and> d_Action d \<noteq> ActionIgnore
          then log @ [(d_Action d, d_Rule d, sql, meta)]
          else case snk of None \<Rightarrow> log
             | Some s \<Rightarrow> if d_Action d = ActionIgnore then log
                         else s (d_Action d) (d_Rule d) sql meta log))"
  unfolding Evaluate_is_Decide_then_Emit
  by (auto simp: Let_def SetSink_def Decide_def Emit_def log_event_def split: option.split)

end
