(* ===== verification/RegexpParse.thy ===== *)
theory RegexpParse
  imports Regexp
begin

text \<open>
  \<open>regexp.Compile\<close> on the patterns the program contains: ASCII patterns of literals, the Perl classes,
  bracket classes, groups, alternation, the flag \<open>(?i)\<close>, anchors, word boundaries and the (lazy)
  quantifiers, counted repetition included. \<open>None\<close> is a syntax error, or a construct outside this
  subset (named groups, other flags, Unicode and POSIX classes).
\<close>

text \<open>
  Go's raw string literals: a backquote of the text stands for a backslash, a tilde for a single quote
  and a hash for a double quote, none of which occurs in a pattern for itself.
\<close>

definition raw :: "string \<Rightarrow> string" where
  "raw s = map (\<lambda>c. if c = CHR ''`'' then CHR 0x5C else if c = CHR ''~'' then CHR 0x27
                    else if c = CHR ''#'' then CHR 0x22 else c) s"

abbreviation backslash :: char where
  "backslash \<equiv> CHR 0x5C"

definition is_digit_char :: "char \<Rightarrow> bool" where
  "is_digit_char c \<longleftrightarrow> 48 \<le> rune_of c \<and> rune_of c \<le> 57"

definition is_alnum :: "char \<Rightarrow> bool" where
  "is_alnum c \<longleftrightarrow> IsWordChar (rune_of c) \<and> rune_of c \<noteq> 95"

section \<open>Classes and escapes\<close>

definition perl_class :: "char \<Rightarrow> (bool \<times> (rune \<times> rune) list) option" where
  "perl_class c =
     (if c = CHR ''d'' then Some (False, [(48, 57)])
      else if c = CHR ''D'' then Some (True, [(48, 57)])
      else if c = CHR ''s'' then Some (False, [(9, 10), (12, 13), (32, 32)])
      else if c = CHR ''S'' then Some (True, [(9, 10), (12, 13), (32, 32)])
      else if c = CHR ''w'' then Some (False, [(48, 57), (65, 90), (95, 95), (97, 122)])
      else if c = CHR ''W'' then Some (True, [(48, 57), (65, 90), (95, 95), (97, 122)])
      else None)"

text \<open>The rune an escape stands for; a backslash in front of ASCII punctuation quotes it.\<close>

definition escaped_rune :: "char \<Rightarrow> rune option" where
  "escaped_rune c =
     (if rune_of c < 128 \<and> \<not> is_alnum c then Some (rune_of c)
      else if c = CHR ''a'' then Some 7
      else if c = CHR ''f'' then Some 12
      else if c = CHR ''n'' then Some 10
      else if c = CHR ''r'' then Some 13
      else if c = CHR ''t'' then Some 9
      else if c = CHR ''v'' then Some 11
      else None)"

definition escape :: "bool \<Rightarrow> char \<Rightarrow> regexp option" where
  "escape fc c =
     (if c = CHR ''b'' then Some WordBoundary
      else if c = CHR ''B'' then Some NoWordBoundary
      else if c = CHR ''A'' then Some BeginText
      else if c = CHR ''z'' then Some EndText
      else (case perl_class c of
              Some (neg, rs) \<Rightarrow> Some (CharClass False neg rs)
            | None \<Rightarrow> (case escaped_rune c of
                Some r \<Rightarrow> Some (Literal fc r)
              | None \<Rightarrow> None)))"

text \<open>One end of a range in a bracket class.\<close>

fun class_char :: "string \<Rightarrow> (rune \<times> string) option" where
  "class_char [] = None"
| "class_char (c # s) =
     (if c = backslash then (case s of
        [] \<Rightarrow> None
      | d # s' \<Rightarrow> (case escaped_rune d of Some r \<Rightarrow> Some (r, s') | None \<Rightarrow> None))
      else if rune_of c < 128 then Some (rune_of c, s) else None)"

text \<open>
  The items of a bracket class up to the closing bracket; a bracket in the first place is an item, and
  a hyphen in front of the closing bracket stands for itself.
\<close>

fun class_items :: "nat \<Rightarrow> bool \<Rightarrow> string \<Rightarrow> ((rune \<times> rune) list \<times> string) option" where
  "class_items 0 first s = None"
| "class_items (Suc n) first s =
     (if s = [] then None
      else if hd s = CHR '']'' \<and> \<not> first then Some ([], tl s)
      else if take 2 s = ''[:'' then None
      else if hd s = backslash \<and> tl s \<noteq> [] \<and> perl_class (hd (tl s)) \<noteq> None then
        (case perl_class (hd (tl s)) of
           Some (False, rs) \<Rightarrow> do {
             (items, s') \<leftarrow> class_items n False (drop 2 s);
             Some (rs @ items, s')
           }
         | _ \<Rightarrow> None)
      else do {
        (lo, s1) \<leftarrow> class_char s;
        if 2 \<le> length s1 \<and> hd s1 = CHR ''-'' \<and> hd (tl s1) \<noteq> CHR '']'' then do {
          (hi, s2) \<leftarrow> class_char (tl s1);
          if hi < lo then None
          else do {
            (items, s') \<leftarrow> class_items n False s2;
            Some ((lo, hi) # items, s')
          }
        }
        else do {
          (items, s') \<leftarrow> class_items n False s1;
          Some ((lo, lo) # items, s')
        }
      })"

definition parse_class :: "bool \<Rightarrow> string \<Rightarrow> (regexp \<times> string) option" where
  "parse_class fc s =
     (let neg = (s \<noteq> [] \<and> hd s = CHR ''^''); s1 = (if neg then tl s else s) in do {
        (items, s') \<leftarrow> class_items (Suc (length s1)) True s1;
        Some (CharClass fc neg items, s')
      })"

section \<open>Quantifiers\<close>

text \<open>A decimal number without a leading zero, as in a counted repetition.\<close>

fun digits :: "string \<Rightarrow> nat \<Rightarrow> nat \<times> string" where
  "digits [] acc = (acc, [])"
| "digits (c # s) acc = (if is_digit_char c then digits s (10 * acc + nat (rune_of c - 48)) else (acc, c # s))"

definition parse_int :: "string \<Rightarrow> (nat \<times> string) option" where
  "parse_int s =
     (if s = [] \<or> \<not> is_digit_char (hd s) \<or> (2 \<le> length s \<and> hd s = CHR ''0'' \<and> is_digit_char (hd (tl s)))
      then None else Some (digits s 0))"

text \<open>\<open>{n}\<close>, \<open>{n,}\<close> and \<open>{n,m}\<close>, after the opening brace; anything else makes the brace a literal.\<close>

definition parse_repeat :: "string \<Rightarrow> (nat \<times> nat option \<times> string) option" where
  "parse_repeat s = do {
     (lo, s1) \<leftarrow> parse_int s;
     if s1 \<noteq> [] \<and> hd s1 = CHR ''}'' then Some (lo, Some lo, tl s1)
     else if s1 \<noteq> [] \<and> hd s1 = CHR '','' then
       (if tl s1 \<noteq> [] \<and> hd (tl s1) = CHR ''}'' then Some (lo, None, tl (tl s1))
        else do {
          (hi, s2) \<leftarrow> parse_int (tl s1);
          if s2 \<noteq> [] \<and> hd s2 = CHR ''}'' then Some (lo, Some hi, tl s2) else None
        })
     else None
   }"

fun optional_copies :: "bool \<Rightarrow> regexp \<Rightarrow> nat \<Rightarrow> regexp" where
  "optional_copies greedy re 0 = EmptyMatch"
| "optional_copies greedy re (Suc n) = Quest greedy (Concat re (optional_copies greedy re n))"

fun copies :: "regexp \<Rightarrow> nat \<Rightarrow> regexp \<Rightarrow> regexp" where
  "copies re 0 rest = rest"
| "copies re (Suc n) rest = Concat re (copies re n rest)"

definition Repeat :: "bool \<Rightarrow> nat \<Rightarrow> nat option \<Rightarrow> regexp \<Rightarrow> regexp" where
  "Repeat greedy lo hi re = copies re lo (case hi of
     None \<Rightarrow> Star greedy re | Some h \<Rightarrow> optional_copies greedy re (h - lo))"

definition is_quantifier :: "string \<Rightarrow> bool" where
  "is_quantifier s \<longleftrightarrow> s \<noteq> [] \<and> (hd s \<in> set ''*+?'' \<or> (hd s = CHR ''{'' \<and> parse_repeat (tl s) \<noteq> None))"

text \<open>The quantifier after an atom, if there is one; two in a row are an error.\<close>

definition parse_quantifier :: "regexp \<Rightarrow> string \<Rightarrow> (regexp \<times> string) option" where
  "parse_quantifier re s =
     (if \<not> is_quantifier s then Some (re, s)
      else do {
        (lo, hi, s1) \<leftarrow>
          (if hd s = CHR ''*'' then Some (0, None, tl s)
           else if hd s = CHR ''+'' then Some (1, None, tl s)
           else if hd s = CHR ''?'' then Some (0, Some 1, tl s)
           else parse_repeat (tl s));
        let lazy = (s1 \<noteq> [] \<and> hd s1 = CHR ''?'');
        let s2 = (if lazy then tl s1 else s1);
        if is_quantifier s2 \<or> 1000 < lo \<or> (case hi of Some h \<Rightarrow> 1000 < h \<or> h < lo | None \<Rightarrow> False) then None
        else Some (
          (if hd s = CHR ''*'' then Star (\<not> lazy) re
           else if hd s = CHR ''+'' then Plus (\<not> lazy) re
           else if hd s = CHR ''?'' then Quest (\<not> lazy) re
           else Repeat (\<not> lazy) lo hi re), s2)
      })"

section \<open>Expressions\<close>

text \<open>Every call reads a character or ends, and at most three calls read no character in a row, so three times
  the length of the pattern is enough fuel.\<close>

fun parse_alternation :: "nat \<Rightarrow> bool \<Rightarrow> string \<Rightarrow> (regexp \<times> string) option"
and parse_concatenation :: "nat \<Rightarrow> bool \<Rightarrow> string \<Rightarrow> (regexp \<times> bool \<times> string) option"
and parse_atom :: "nat \<Rightarrow> bool \<Rightarrow> string \<Rightarrow> (regexp \<times> string) option"
where
  "parse_alternation 0 fc s = None"
| "parse_alternation (Suc n) fc s = do {
     (a, fc', s1) \<leftarrow> parse_concatenation n fc s;
     if s1 \<noteq> [] \<and> hd s1 = CHR ''|'' then do {
       (b, s2) \<leftarrow> parse_alternation n fc' (tl s1);
       Some (Alternate a b, s2)
     }
     else Some (a, s1)
   }"
| "parse_concatenation 0 fc s = None"
| "parse_concatenation (Suc n) fc s =
     (if s = [] \<or> hd s = CHR ''|'' \<or> hd s = CHR '')'' then Some (EmptyMatch, fc, s)
      else if take 4 s = ''(?i)'' then parse_concatenation n True (drop 4 s)
      else do {
        (atom, s1) \<leftarrow> parse_atom n fc s;
        (re, s2) \<leftarrow> parse_quantifier atom s1;
        (rest, fc', s3) \<leftarrow> parse_concatenation n fc s2;
        Some (if rest = EmptyMatch then re else Concat re rest, fc', s3)
      })"
| "parse_atom 0 fc s = None"
| "parse_atom (Suc n) fc s =
     (if s = [] then None
      else if hd s = CHR ''('' then
        (if take 2 s = ''(?'' \<and> take 3 s \<noteq> ''(?:'' then None
         else do {
           (re, s1) \<leftarrow> parse_alternation n fc (if take 3 s = ''(?:'' then drop 3 s else tl s);
           if s1 \<noteq> [] \<and> hd s1 = CHR '')'' then Some (re, tl s1) else None
         })
      else if hd s = CHR ''['' then parse_class fc (tl s)
      else if hd s = CHR ''.'' then Some (AnyCharNotNL, tl s)
      else if hd s = CHR ''^'' then Some (BeginText, tl s)
      else if hd s = CHR ''$'' then Some (EndText, tl s)
      else if is_quantifier s then None
      else if hd s = backslash then (case tl s of
          [] \<Rightarrow> None
        | c # s' \<Rightarrow> (case escape fc c of Some re \<Rightarrow> Some (re, s') | None \<Rightarrow> None))
      else if rune_of (hd s) < 128 then Some (Literal fc (rune_of (hd s)), tl s)
      else None)"

definition Compile :: "string \<Rightarrow> regexp option" where
  "Compile pattern = (case parse_alternation (3 * length pattern + 4) False pattern of
     Some (re, []) \<Rightarrow> Some re | _ \<Rightarrow> None)"

text \<open>\<open>regexp.MustCompile\<close> panics on an error, which is \<open>None\<close> here.\<close>

definition MustCompile :: "string \<Rightarrow> regexp option" where
  "MustCompile pattern = Compile pattern"

end
