(* ===== verification/PatternWords.thy ===== *)
theory PatternWords
  imports RegexpParse
begin

text \<open>
  Patterns made of words and white space: the trees the parser builds for them and the texts they
  match, whatever the letters' case and the bytes around them.
\<close>

section \<open>Building patterns\<close>

text \<open>The trees the parser builds for words, for a choice of words and for a white space.\<close>

fun word_then :: "bool \<Rightarrow> string \<Rightarrow> regexp \<Rightarrow> regexp" where
  "word_then fc [] rest = rest"
| "word_then fc (c # s) rest = Concat (Literal fc (rune_of c)) (word_then fc s rest)"

fun word :: "bool \<Rightarrow> string \<Rightarrow> regexp" where
  "word fc [] = EmptyMatch"
| "word fc [c] = Literal fc (rune_of c)"
| "word fc (c # d # s) = Concat (Literal fc (rune_of c)) (word fc (d # s))"

fun one_of :: "bool \<Rightarrow> string list \<Rightarrow> regexp" where
  "one_of fc [] = NoMatch"
| "one_of fc [w] = word fc w"
| "one_of fc (v # w # ws) = Alternate (word fc v) (one_of fc (w # ws))"

definition space :: regexp where
  "space = CharClass False False [(9, 10), (12, 13), (32, 32)]"

section \<open>What the patterns match\<close>

text \<open>Equality up to ASCII case, white space, and the edges of a word.\<close>

definition lower_rune :: "rune \<Rightarrow> rune" where
  "lower_rune r = (if 65 \<le> r \<and> r \<le> 90 then r + 32 else r)"

definition same_word :: "string \<Rightarrow> string \<Rightarrow> bool" where
  "same_word s w \<longleftrightarrow> map (\<lambda>c. lower_rune (rune_of c)) s = map (\<lambda>c. lower_rune (rune_of c)) w"

definition is_space :: "string \<Rightarrow> bool" where
  "is_space s \<longleftrightarrow> s \<noteq> [] \<and> list_all (\<lambda>c. rune_of c \<in> set [9, 10, 12, 13, 32]) s"

definition edge_before :: "string \<Rightarrow> bool" where
  "edge_before pre \<longleftrightarrow> pre = [] \<or> (rune_of (last pre) < 128 \<and> \<not> IsWordChar (rune_of (last pre)))"

definition edge_after :: "string \<Rightarrow> bool" where
  "edge_after post \<longleftrightarrow> post = [] \<or> (rune_of (hd post) < 128 \<and> \<not> IsWordChar (rune_of (hd post)))"

lemma same_letter:
  assumes "lower_rune r = lower_rune x" and "r < 128"
  shows "is_literal True r x" and "x < 128"
proof -
  have "(x = r \<or> x = r + 32 \<and> 65 \<le> r \<and> r \<le> 90 \<or> x = r - 32 \<and> 97 \<le> r \<and> r \<le> 122) \<and> x < 128"
    using assms by (auto simp: lower_rune_def split: if_splits)
  then show "is_literal True r x" "x < 128" by (auto simp: is_literal_def fold_orbit_def)
qed

lemma same_word_ascii: "same_word s w \<Longrightarrow> ascii w \<Longrightarrow> ascii s"
proof (induction s arbitrary: w)
  case (Cons c s)
  then obtain d w' where "w = d # w'" by (cases w) (auto simp: same_word_def)
  with Cons same_letter(2) [of "rune_of d" "rune_of c"] show ?case by (auto simp: same_word_def)
qed simp

lemma match_word_then:
  assumes "same_word s w" and "ascii w" and "match_re rest (last_rune p (tokens s), ts) c"
  shows "match_re (word_then True w rest) (p, tokens s @ ts) c"
  using assms
proof (induction w arbitrary: s p)
  case Nil
  then show ?case by (simp add: same_word_def)
next
  case (Cons d w)
  then obtain x s' where s: "s = x # s'" by (cases s) (auto simp: same_word_def)
  with Cons have "match_re (word_then True w rest) (Some (rune_of x), tokens s' @ ts) c"
    by (simp add: same_word_def last_rune_Cons)
  with Cons.prems same_letter(1) [of "rune_of d" "rune_of x"] show ?case
    by (auto simp: s same_word_def)
qed

lemma match_word:
  assumes "same_word s w" and "ascii w" and "w \<noteq> []"
  shows "match_re (word True w) (p, tokens s @ ts) (last_rune p (tokens s), ts)"
  using assms
proof (induction w arbitrary: s p rule: induct_list012)
  case (2 d)
  then obtain x where s: "s = [x]" by (cases s) (auto simp: same_word_def)
  with 2 same_letter(1) [of "rune_of d" "rune_of x"] show ?case by (auto simp: same_word_def)
next
  case (3 d e w)
  then obtain x s' where s: "s = x # s'" by (cases s) (auto simp: same_word_def)
  with 3 have "match_re (word True (e # w)) (Some (rune_of x), tokens s' @ ts)
      (last_rune (Some (rune_of x)) (tokens s'), ts)"
    by (simp add: same_word_def)
  with 3 same_letter(1) [of "rune_of d" "rune_of x"] show ?case
    by (auto simp: s same_word_def last_rune_Cons)
qed simp

lemma match_one_of:
  "w \<in> set ws \<Longrightarrow> same_word s w \<Longrightarrow> ascii w \<Longrightarrow> w \<noteq> [] \<Longrightarrow>
     match_re (one_of True ws) (p, tokens s @ ts) (last_rune p (tokens s), ts)"
  by (induction "True" ws rule: one_of.induct) (auto intro: match_word)

lemma match_space: "rune_of c \<in> set [9, 10, 12, 13, 32] \<Longrightarrow> in_class False False [(9, 10), (12, 13), (32, 32)] (rune_of c)"
  by (auto simp: in_class_def in_ranges_def)

lemma match_star_space:
  "list_all (\<lambda>c. rune_of c \<in> set [9, 10, 12, 13, 32]) s \<Longrightarrow>
     match_re (Star True space) (p, tokens s @ ts) (last_rune p (tokens s), ts)"
proof (induction s arbitrary: p)
  case Nil
  then show ?case by (simp add: match_re.stop)
next
  case (Cons c s)
  have "match_re space (p, tokens (c # s) @ ts) (Some (rune_of c), tokens s @ ts)"
    using Cons.prems match_space [of c] by (simp add: space_def)
  moreover have "match_re (Star True space) (Some (rune_of c), tokens s @ ts)
      (last_rune (Some (rune_of c)) (tokens s), ts)"
    using Cons by simp
  ultimately show ?case by (auto simp: last_rune_Cons intro: match_re.again)
qed

lemma match_plus_space:
  assumes "is_space s"
  shows "match_re (Plus True space) (p, tokens s @ ts) (last_rune p (tokens s), ts)"
proof -
  obtain c s' where s: "s = c # s'" using assms by (cases s) (auto simp: is_space_def)
  have "match_re space (p, tokens s @ ts) (Some (rune_of c), tokens s' @ ts)"
    using assms match_space [of c] by (simp add: space_def is_space_def s)
  moreover have "match_re (Star True space) (Some (rune_of c), tokens s' @ ts)
      (last_rune (Some (rune_of c)) (tokens s'), ts)"
    using assms by (intro match_star_space) (simp add: is_space_def s)
  ultimately show ?thesis unfolding Plus_def
    by (auto simp: s last_rune_Cons)
qed

lemma space_ascii: "is_space s \<Longrightarrow> ascii s"
  by (auto simp: is_space_def ascii_def list_all_iff)

text \<open>Word boundaries at the edges.\<close>

lemma not_word_before: "edge_before pre \<Longrightarrow> \<not> word_at (last_rune None (runes (bytes_of pre)))"
proof (cases pre rule: rev_cases)
  case (snoc p c)
  assume "edge_before pre"
  with snoc runes_around_ascii [of "[c]" p "[]"] show ?thesis
    by (simp add: edge_before_def word_at_def)
qed (simp add: word_at_def)

lemma not_word_after: "edge_after post \<Longrightarrow> \<not> word_at (next_rune (p, runes (bytes_of post)))"
proof (cases post)
  case (Cons c q)
  assume "edge_after post"
  with Cons runes_tokens [of "[c]" "bytes_of q"] show ?thesis
    by (simp add: edge_after_def word_at_def bytes_of_def)
qed (simp add: word_at_def)

definition word_text :: "string \<Rightarrow> bool" where
  "word_text s \<longleftrightarrow> s \<noteq> [] \<and> list_all (\<lambda>c. IsWordChar (rune_of c)) s"

lemma word_text_edges:
  assumes "word_text s"
  shows "word_at (next_rune (p, tokens s @ ts))" and "word_at (last_rune p (tokens s))"
proof -
  obtain c s' where "s = c # s'" using assms by (cases s) (auto simp: word_text_def)
  then show "word_at (next_rune (p, tokens s @ ts))"
    using assms by (simp add: word_text_def word_at_def)
  obtain s' c where "s = s' @ [c]" using assms by (cases s rule: rev_cases) (auto simp: word_text_def)
  then show "word_at (last_rune p (tokens s))"
    using assms by (simp add: word_text_def word_at_def)
qed

lemma space_edges:
  assumes "is_space s"
  shows "\<not> word_at (next_rune (p, tokens s @ ts))" and "\<not> word_at (last_rune p (tokens s))"
proof -
  have n: "\<not> IsWordChar r" if "r \<in> set [9, 10, 12, 13, 32]" for r
    using that by (auto simp: IsWordChar_def)
  obtain c s' where "s = c # s'" using assms by (cases s) (auto simp: is_space_def)
  then show "\<not> word_at (next_rune (p, tokens s @ ts))"
    using assms n [of "rune_of c"] by (simp add: is_space_def word_at_def)
  obtain s' c where "s = s' @ [c]" using assms by (cases s rule: rev_cases) (auto simp: is_space_def)
  then show "\<not> word_at (last_rune p (tokens s))"
    using assms n [of "rune_of c"] by (simp add: is_space_def word_at_def)
qed

lemma same_word_text: "same_word s w \<Longrightarrow> word_text w \<Longrightarrow> word_text s"
proof -
  have l: "IsWordChar (lower_rune r) \<longleftrightarrow> IsWordChar r" for r
    by (auto simp: IsWordChar_def lower_rune_def)
  assume "same_word s w" "word_text w"
  then have "list_all IsWordChar (map (\<lambda>c. lower_rune (rune_of c)) s)" "length s = length w"
    by (simp add: same_word_def word_text_def list_all_iff l, metis length_map same_word_def)
  then show ?thesis using \<open>word_text w\<close> by (auto simp: word_text_def list_all_iff l)
qed

text \<open>Patterns without \<open>(?i)\<close> match their own text.\<close>

lemma is_literal_exact: "is_literal False r r"
  by (simp add: is_literal_def)

lemma match_word_then_exact:
  "match_re rest (last_rune p (tokens w), ts) c \<Longrightarrow> match_re (word_then False w rest) (p, tokens w @ ts) c"
  by (induction w arbitrary: p) (auto simp: is_literal_exact last_rune_Cons)

lemma match_word_exact:
  "w \<noteq> [] \<Longrightarrow> match_re (word False w) (p, tokens w @ ts) (last_rune p (tokens w), ts)"
  by (induction w arbitrary: p rule: induct_list012) (auto simp: is_literal_exact last_rune_Cons)

lemma match_one_of_exact:
  "w \<in> set ws \<Longrightarrow> w \<noteq> [] \<Longrightarrow>
     match_re (one_of False ws) (p, tokens w @ ts) (last_rune p (tokens w), ts)"
  by (induction "False" ws rule: one_of.induct) (auto intro: match_word_exact)

end
