(* ===== verification/DefaultRules.thy ===== *)
theory DefaultRules
  imports Engine PatternWords
begin

text \<open>
  The built-in rule sets (\<open>engine/rules.go\<close>, \<open>engine/postgres_rules.go\<close>, \<open>engine/mongodb_rules.go\<close>): the
  patterns as they are written, compiled by \<open>MustCompile\<close>, and what they catch. None is the panic of
  \<open>MustCompile\<close> on a pattern with an error.
\<close>

definition mk_rule :: "string \<Rightarrow> string \<Rightarrow> string \<Rightarrow> rule option" where
  "mk_rule name action pattern = do {
     re \<leftarrow> MustCompile (raw pattern);
     Some \<lparr>r_Name = name, r_Action = action, r_SQLPattern = Some re, r_Users = [], r_Databases = []\<rparr>
   }"

definition or_always_true :: string where
  "or_always_true =
     ''(?i)`bOR`b`s+('' @
        ''1`s*=`s*1'' @
        ''|~[^~]*~`s*=`s*~[^~]*~'' @
        ''|#[^#]*#`s*=`s*#[^#]*#'' @
        ''|`btrue`b'' @
        '')''"

definition union_select :: string where
  "union_select = ''(?i)`bUNION`b`s+(ALL`s+)?`bSELECT`b''"

definition DefaultRules :: "rule list option" where
  "DefaultRules =
     those [mk_rule ''sqli-or-always-true'' ActionBlock or_always_true,
      mk_rule ''sqli-union-select'' ActionBlock union_select,
      mk_rule ''sqli-stacked-queries'' ActionBlock
        ''(?i);`s*(DROP|INSERT|UPDATE|DELETE|CREATE|ALTER|TRUNCATE|EXEC)`b'',
      mk_rule ''sqli-time-based'' ActionBlock ''(?i)`b(SLEEP|BENCHMARK)`s*`('',
      mk_rule ''exfil-file-ops'' ActionBlock
        ''(?i)`b(LOAD_FILE`s*`(|INTO`s+OUTFILE`b|INTO`s+DUMPFILE`b)'',
      mk_rule ''ddl-drop'' ActionBlock
        ''(?i)`bDROP`s+(TABLE|DATABASE|SCHEMA|INDEX|VIEW|PROCEDURE|FUNCTION)`b'',
      mk_rule ''ddl-truncate'' ActionBlock ''(?i)^`s*TRUNCATE`s+'',
      mk_rule ''privesc-grant'' ActionBlock ''(?i)`bGRANT`b.+`bTO`b'',
      mk_rule ''privesc-user-mgmt'' ActionBlock ''(?i)`b(CREATE|ALTER)`s+USER`b'',
      mk_rule ''recon-information-schema'' ActionAlert ''(?i)`binformation_schema`b'',
      mk_rule ''recon-mysql-user'' ActionAlert ''(?i)`bmysql`s*`.`s*user`b'']"

definition DefaultPostgresRules :: "rule list option" where
  "DefaultPostgresRules =
     those [mk_rule ''sqli-or-always-true'' ActionBlock or_always_true,
      mk_rule ''sqli-union-select'' ActionBlock union_select,
      mk_rule ''sqli-stacked-queries'' ActionBlock
        ''(?i);`s*(DROP|INSERT|UPDATE|DELETE|CREATE|ALTER|TRUNCATE)`b'',
      mk_rule ''sqli-time-based-pg'' ActionBlock ''(?i)`bpg_sleep`s*`('',
      mk_rule ''exfil-pg-file-read'' ActionBlock ''(?i)`bpg_(read_file|read_binary_file|ls_dir)`s*`('',
      mk_rule ''exfil-copy-file'' ActionBlock ''(?i)`bCOPY`b.+`b(TO|FROM)`b.+(~|E~)'',
      mk_rule ''exfil-large-object'' ActionBlock ''(?i)`b(lo_import|lo_export)`s*`('',
      mk_rule ''rce-server-program'' ActionBlock ''(?i)`bpg_execute_server_program`s*`('',
      mk_rule ''ddl-drop'' ActionBlock
        ''(?i)`bDROP`s+(TABLE|DATABASE|SCHEMA|INDEX|VIEW|FUNCTION|PROCEDURE|SEQUENCE)`b'',
      mk_rule ''ddl-truncate'' ActionBlock ''(?i)^`s*TRUNCATE`s+'',
      mk_rule ''privesc-grant'' ActionBlock ''(?i)`bGRANT`b.+`bTO`b'',
      mk_rule ''privesc-role-mgmt'' ActionBlock ''(?i)`b(CREATE|ALTER)`s+(ROLE|USER)`b'',
      mk_rule ''recon-information-schema'' ActionAlert ''(?i)`binformation_schema`b'',
      mk_rule ''recon-pg-catalog'' ActionAlert ''(?i)`bpg_catalog`b'',
      mk_rule ''recon-pg-shadow'' ActionAlert ''(?i)`b(pg_shadow|pg_authid)`b'']"

definition DefaultMongoDBRules :: "rule list option" where
  "DefaultMongoDBRules =
     those [mk_rule ''nosqli-where-js'' ActionBlock ''HAS:`$where'',
      mk_rule ''nosqli-function-js'' ActionBlock ''HAS:`$(function|accumulator)'',
      mk_rule ''ddl-drop-collection'' ActionBlock ''(?i)^CMD:drop`b'',
      mk_rule ''ddl-drop-database'' ActionBlock ''(?i)^CMD:dropDatabase`b'',
      mk_rule ''mass-operation-no-filter'' ActionBlock ''`bEMPTY_FILTER`b'',
      mk_rule ''privesc-user-mgmt'' ActionBlock ''(?i)^CMD:(createUser|dropUser|updateUser)`b'',
      mk_rule ''privesc-grant-roles'' ActionBlock ''(?i)^CMD:(grantRolesToUser|revokeRolesFromUser)`b'',
      mk_rule ''recon-list-databases'' ActionAlert ''(?i)^CMD:listDatabases`b'',
      mk_rule ''recon-list-collections'' ActionAlert ''(?i)^CMD:listCollections`b'',
      mk_rule ''mapreduce-js'' ActionAlert ''(?i)^CMD:mapReduce`b'']"

section \<open>The rule sets\<close>

definition block_first :: "rule list \<Rightarrow> bool" where
  "block_first rs \<longleftrightarrow>
     list_all (\<lambda>r. r_Action r = ActionAlert) (dropWhile (\<lambda>r. r_Action r = ActionBlock) rs)"

lemma rule_sets_compile:
  "map_option block_first DefaultRules = Some True"
  "map_option block_first DefaultPostgresRules = Some True"
  "map_option block_first DefaultMongoDBRules = Some True"
  by code_simp+

lemma those_member: "those xs = Some ys \<Longrightarrow> Some y \<in> set xs \<Longrightarrow> y \<in> set ys"
  by (induction xs arbitrary: ys) (auto split: option.splits)

text \<open>A rule of the front block that matches decides, whatever alert rules match too.\<close>

lemma block_first_decides:
  assumes "block_first rs" and "r \<in> set rs" and "r_Action r = ActionBlock"
    and "rule_matches fold_rune r sql username database"
  shows "d_Action (decide_rules fold_rune rs sql username database) = ActionBlock"
proof -
  let ?P = "\<lambda>r. r_Action r = ActionBlock"
  have alerts: "\<forall>x \<in> set (dropWhile ?P rs). r_Action x = ActionAlert"
    using assms(1) by (simp only: block_first_def list_all_iff)
  have "set (takeWhile ?P rs @ dropWhile ?P rs) = set rs"
    by (simp only: takeWhile_dropWhile_id)
  then have "r \<in> set (takeWhile ?P rs) \<or> r \<in> set (dropWhile ?P rs)"
    using assms(2) by (simp only: set_append Un_iff [symmetric])
  moreover have "r \<notin> set (dropWhile ?P rs)"
  proof
    assume "r \<in> set (dropWhile ?P rs)"
    with alerts have "r_Action r = ActionAlert" by (rule bspec)
    then show False unfolding assms(3) by (simp add: action_defs)
  qed
  ultimately have "r \<in> set (takeWhile ?P rs)" by (simp only: simp_thms)
  moreover have "\<forall>a \<in> set (takeWhile ?P rs). \<lparr>d_Action = r_Action a, d_Rule = r_Name a\<rparr>
      \<in> {d. d_Action d = ActionBlock}"
  proof
    fix a assume "a \<in> set (takeWhile ?P rs)"
    from set_takeWhileD [OF this]
    show "\<lparr>d_Action = r_Action a, d_Rule = r_Name a\<rparr> \<in> {d. d_Action d = ActionBlock}" by simp
  qed
  ultimately show ?thesis
    using policy.decide_dominated [where front = "takeWhile ?P rs" and behind = "dropWhile ?P rs"
        and V = "{d. d_Action d = ActionBlock}" and q = "(sql, username, database)"
        and fold_rune = fold_rune] assms(4)
    by (simp only: takeWhile_dropWhile_id mem_Collect_eq split_conv) blast
qed

section \<open>Compiled patterns\<close>

lemma drop_pattern:
  "Compile (raw ''(?i)`bDROP`s+(TABLE|DATABASE|SCHEMA|INDEX|VIEW|PROCEDURE|FUNCTION)`b'') =
     Some (Concat WordBoundary (word_then True ''DROP'' (Concat (Plus True space)
       (Concat (one_of True [''TABLE'', ''DATABASE'', ''SCHEMA'', ''INDEX'', ''VIEW'', ''PROCEDURE'', ''FUNCTION''])
          WordBoundary))))"
  by code_simp

lemma union_pattern:
  "Compile (raw union_select) =
     Some (Concat WordBoundary (word_then True ''UNION'' (Concat WordBoundary (Concat (Plus True space)
       (Concat (Quest True (word_then True ''ALL'' (Plus True space)))
         (Concat WordBoundary (word_then True ''SELECT'' WordBoundary)))))))"
  by code_simp

lemma pg_drop_pattern:
  "Compile (raw ''(?i)`bDROP`s+(TABLE|DATABASE|SCHEMA|INDEX|VIEW|FUNCTION|PROCEDURE|SEQUENCE)`b'') =
     Some (Concat WordBoundary (word_then True ''DROP'' (Concat (Plus True space)
       (Concat (one_of True [''TABLE'', ''DATABASE'', ''SCHEMA'', ''INDEX'', ''VIEW'', ''FUNCTION'', ''PROCEDURE'',
          ''SEQUENCE'']) WordBoundary))))"
  by code_simp

section \<open>Blocked statements\<close>

lemma rule_set_blocks:
  assumes "map_option block_first rset = Some True" and "rset = those xs"
    and "mk_rule name ActionBlock pattern \<in> set xs" and "Compile (raw pattern) = Some re"
    and "MatchString re sql"
  shows "\<exists>rs. rset = Some rs
     \<and> (\<forall>user db. d_Action (Decide fold_rune (New rs :: 'w engine) sql user db) = ActionBlock)"
proof -
  obtain rs where rs: "rset = Some rs" "block_first rs" using assms(1) by auto
  let ?r = "\<lparr>r_Name = name, r_Action = ActionBlock, r_SQLPattern = Some re, r_Users = [], r_Databases = []\<rparr>"
  have "mk_rule name ActionBlock pattern = Some ?r"
    using assms(4) by (simp add: mk_rule_def MustCompile_def)
  then have "?r \<in> set rs" using assms(2,3) rs(1) those_member by metis
  moreover have "rule_matches fold_rune ?r sql user db" for user db
    using assms(5) by (simp add: rule_matches_def)
  ultimately have "d_Action (decide_rules fold_rune rs sql user db) = ActionBlock" for user db
    using block_first_decides [OF rs(2)] by simp
  with rs(1) show ?thesis by (simp add: Decide_def New_def)
qed

lemma edge_boundary: "word_at (fst c) \<noteq> word_at (next_rune c) \<Longrightarrow> match_re WordBoundary c c"
  by (simp add: boundary_def)

lemma drop_matches:
  assumes "same_word d ''DROP''" and "is_space ws" and "obj \<in> set objs" and "same_word k obj"
    and "word_text obj" and "ascii obj" and "edge_before pre" and "edge_after post"
  shows "MatchString (Concat WordBoundary (word_then True ''DROP'' (Concat (Plus True space)
       (Concat (one_of True objs) WordBoundary)))) (pre @ (d @ ws @ k) @ post)"
proof -
  let ?p = "last_rune None (runes (bytes_of pre))" and ?q = "runes (bytes_of post)"
  have D: "word_text ''DROP''" "ascii ''DROP''" by code_simp+
  have d: "word_text d" "ascii d" using assms(1) D same_word_text same_word_ascii by blast+
  have k: "word_text k" "ascii k" using assms(4-6) same_word_text same_word_ascii by blast+
  let ?p1 = "last_rune ?p (tokens d)" and ?p2 = "last_rune (last_rune ?p (tokens d)) (tokens ws)"
  let ?p3 = "last_rune ?p2 (tokens k)"
  have "match_re WordBoundary (?p3, ?q) (?p3, ?q)"
    using word_text_edges(2) [OF k(1)] not_word_after [OF assms(8)] by (intro edge_boundary) simp
  moreover have "match_re (one_of True objs) (?p2, tokens k @ ?q) (?p3, ?q)"
    using assms(3-6) by (intro match_one_of) (auto simp: word_text_def)
  moreover have "match_re (Plus True space) (?p1, tokens ws @ tokens k @ ?q) (?p2, tokens k @ ?q)"
    using assms(2) by (rule match_plus_space)
  ultimately have "match_re (Concat (Plus True space) (Concat (one_of True objs) WordBoundary))
      (?p1, tokens ws @ tokens k @ ?q) (?p3, ?q)"
    by (meson match_re.concat)
  from match_word_then [OF assms(1) D(2) this]
  have "match_re (word_then True ''DROP'' (Concat (Plus True space) (Concat (one_of True objs) WordBoundary)))
      (?p, tokens (d @ ws @ k) @ ?q) (?p3, ?q)"
    by (simp only: tokens_simps append_assoc)
  moreover have "match_re WordBoundary (?p, tokens (d @ ws @ k) @ ?q) (?p, tokens (d @ ws @ k) @ ?q)"
    using not_word_before [OF assms(7)] word_text_edges(1) [OF d(1)] by (intro edge_boundary) simp
  ultimately have "match_re (Concat WordBoundary (word_then True ''DROP'' (Concat (Plus True space)
      (Concat (one_of True objs) WordBoundary)))) (?p, tokens (d @ ws @ k) @ ?q) (?p3, ?q)"
    by (meson match_re.concat)
  moreover have "ascii (d @ ws @ k)" "d @ ws @ k \<noteq> []"
    using d k space_ascii [OF assms(2)] by (auto simp: word_text_def)
  ultimately show ?thesis by (intro MatchStringI)
qed

definition droppable :: "string list" where
  "droppable = [''TABLE'', ''DATABASE'', ''SCHEMA'', ''INDEX'', ''VIEW'', ''PROCEDURE'', ''FUNCTION'']"

lemma drop_blocked:
  assumes "same_word d ''DROP''" and "is_space ws" and "list_ex (same_word k) droppable"
    and "edge_before pre" and "edge_after post"
  shows "(\<exists>rs. DefaultRules = Some rs \<and> (\<forall>user db.
            d_Action (Decide fold_rune (New rs :: 'w engine) (pre @ (d @ ws @ k) @ post) user db) = ActionBlock))
       \<and> (\<exists>rs. DefaultPostgresRules = Some rs \<and> (\<forall>user db.
            d_Action (Decide fold_rune (New rs :: 'w engine) (pre @ (d @ ws @ k) @ post) user db) = ActionBlock))"
proof -
  obtain obj where obj: "obj \<in> set droppable" "same_word k obj"
    using assms(3) by (auto simp: list_ex_iff)
  have "list_all (\<lambda>w. word_text w \<and> ascii w) droppable" by code_simp
  then have w: "word_text obj" "ascii obj" using obj(1) by (auto simp: list_all_iff)
  have "obj \<in> set [''TABLE'', ''DATABASE'', ''SCHEMA'', ''INDEX'', ''VIEW'', ''PROCEDURE'', ''FUNCTION'']"
    "obj \<in> set [''TABLE'', ''DATABASE'', ''SCHEMA'', ''INDEX'', ''VIEW'', ''FUNCTION'', ''PROCEDURE'', ''SEQUENCE'']"
    using obj(1) by (auto simp: droppable_def)
  note m = this [THEN drop_matches [OF assms(1,2) _ obj(2) w assms(4,5)]]
  show ?thesis
    by (intro conjI
        rule_set_blocks [OF rule_sets_compile(1) DefaultRules_def _ drop_pattern m(1), of "''ddl-drop''"]
        rule_set_blocks [OF rule_sets_compile(2) DefaultPostgresRules_def _ pg_drop_pattern m(2),
          of "''ddl-drop''"])
      simp_all
qed

text \<open>
  no text around it hides a \<open>DROP\<close> statement from the MySQL and the PostgreSQL rules. Whatever bytes
  come before and after, in whatever case the words are written and whatever white space separates them,
  as long as they stand as words: both rule sets (which compile) block the query, for every user and
  database, under any case table.
\<close>

theorem drop_statements_blocked:
  assumes "same_word d ''DROP''" and "is_space ws" and "list_ex (same_word k) droppable"
    and "edge_before pre" and "edge_after post"
  shows "(\<exists>rs. DefaultRules = Some rs \<and> (\<forall>user db.
            d_Action (Decide fold_rune (New rs :: 'w engine) (pre @ (d @ ws @ k) @ post) user db) = ActionBlock))
       \<and> (\<exists>rs. DefaultPostgresRules = Some rs \<and> (\<forall>user db.
            d_Action (Decide fold_rune (New rs :: 'w engine) (pre @ (d @ ws @ k) @ post) user db) = ActionBlock))"
  using assms by (rule drop_blocked)

theorem drop_statements_blocked_witness:
  "\<exists>rs. DefaultRules = Some rs \<and> d_Action (Decide ascii_fold (New rs :: unit engine)
      (''select 1/*'' @ (''dRop'' @ [CHR 0x0A] @ ''Table'') @ '' t --'') ''app'' ''shop'') = ActionBlock"
proof -
  have "same_word ''dRop'' ''DROP''" "is_space [CHR 0x0A]" "list_ex (same_word ''Table'') droppable"
    "edge_before ''select 1/*''" "edge_after '' t --''" by code_simp+
  from drop_statements_blocked [OF this, of ascii_fold] show ?thesis by blast
qed

lemma union_matches:
  assumes "same_word u ''UNION''" and "is_space ws1" and "a = [] \<or> (\<exists>w ws2. same_word w ''ALL'' \<and> is_space ws2 \<and> a = w @ ws2)"
    and "same_word s ''SELECT''" and "edge_before pre" and "edge_after post"
  shows "MatchString (Concat WordBoundary (word_then True ''UNION'' (Concat WordBoundary
       (Concat (Plus True space) (Concat (Quest True (word_then True ''ALL'' (Plus True space)))
         (Concat WordBoundary (word_then True ''SELECT'' WordBoundary)))))))
     (pre @ (u @ ws1 @ a @ s) @ post)"
proof -
  let ?p = "last_rune None (runes (bytes_of pre))" and ?q = "runes (bytes_of post)"
  have W: "word_text ''UNION''" "ascii ''UNION''" "ascii ''ALL''" "word_text ''SELECT''" "ascii ''SELECT''"
    by code_simp+
  have u: "word_text u" "ascii u" using assms(1) W same_word_text same_word_ascii by blast+
  have s: "word_text s" "ascii s" using assms(4) W same_word_text same_word_ascii by blast+
  let ?p1 = "last_rune ?p (tokens u)" and ?p2 = "last_rune (last_rune ?p (tokens u)) (tokens ws1)"
  let ?p3 = "last_rune ?p2 (tokens a)"
  let ?p4 = "last_rune ?p3 (tokens s)"
  have ends: "match_re (word_then True ''SELECT'' WordBoundary) (?p3, tokens s @ ?q) (?p4, ?q)"
    using assms(4) W(5) word_text_edges(2) [OF s(1)] not_word_after [OF assms(6)]
    by (intro match_word_then edge_boundary) simp_all
  have before: "\<not> word_at ?p3"
    using assms(3) space_edges(2) [OF assms(2)] space_edges(2) by auto
  have "match_re (Quest True (word_then True ''ALL'' (Plus True space))) (?p2, tokens a @ tokens s @ ?q)
      (?p3, tokens s @ ?q)"
    using assms(3)
  proof
    assume "a = []"
    then show ?thesis by simp
  next
    assume "\<exists>w ws2. same_word w ''ALL'' \<and> is_space ws2 \<and> a = w @ ws2"
    then obtain w ws2 where a: "same_word w ''ALL''" "is_space ws2" "a = w @ ws2" by blast
    have "match_re (word_then True ''ALL'' (Plus True space)) (?p2, tokens w @ tokens ws2 @ tokens s @ ?q)
        (?p3, tokens s @ ?q)"
      using match_plus_space [OF a(2)] by (intro match_word_then a(1) W(3)) (simp add: a(3))
    then show ?thesis by (simp only: a(3) tokens_simps append_assoc match_re.once)
  qed
  moreover have "match_re WordBoundary (?p3, tokens s @ ?q) (?p3, tokens s @ ?q)"
    using before word_text_edges(1) [OF s(1)] by (intro edge_boundary) simp
  moreover have "match_re (Plus True space) (?p1, tokens ws1 @ tokens a @ tokens s @ ?q)
      (?p2, tokens a @ tokens s @ ?q)"
    using assms(2) by (rule match_plus_space)
  moreover have "match_re WordBoundary (?p1, tokens ws1 @ tokens a @ tokens s @ ?q)
      (?p1, tokens ws1 @ tokens a @ tokens s @ ?q)"
    using word_text_edges(2) [OF u(1)] space_edges(1) [OF assms(2)] by (intro edge_boundary) simp
  ultimately have "match_re (Concat WordBoundary
       (Concat (Plus True space) (Concat (Quest True (word_then True ''ALL'' (Plus True space)))
         (Concat WordBoundary (word_then True ''SELECT'' WordBoundary)))))
      (?p1, tokens ws1 @ tokens a @ tokens s @ ?q) (?p4, ?q)"
    using ends by (meson match_re.concat)
  from match_word_then [OF assms(1) W(2) this]
  have body: "match_re (word_then True ''UNION'' (Concat WordBoundary
       (Concat (Plus True space) (Concat (Quest True (word_then True ''ALL'' (Plus True space)))
         (Concat WordBoundary (word_then True ''SELECT'' WordBoundary))))))
      (?p, tokens (u @ ws1 @ a @ s) @ ?q) (?p4, ?q)"
    by (simp only: tokens_simps append_assoc)
  have start: "match_re WordBoundary (?p, tokens (u @ ws1 @ a @ s) @ ?q) (?p, tokens (u @ ws1 @ a @ s) @ ?q)"
    using not_word_before [OF assms(5)] word_text_edges(1) [OF u(1)] by (intro edge_boundary) simp
  have "ascii (u @ ws1 @ a @ s)" "u @ ws1 @ a @ s \<noteq> []"
    using u s space_ascii [OF assms(2)] assms(3) space_ascii same_word_ascii [OF _ W(3)]
    by (auto simp: word_text_def)
  from MatchStringI [OF this match_re.concat [OF start body]] show ?thesis .
qed

text \<open>
  C18: \<open>UNION [ALL] SELECT\<close> is blocked by both SQL rule sets wherever it stands as words, in any case, with
  any white space (line breaks and form feeds included) and any bytes around it.
\<close>

theorem union_select_blocked:
  assumes "same_word u ''UNION''" and "is_space ws1"
    and "a = [] \<or> (\<exists>w ws2. same_word w ''ALL'' \<and> is_space ws2 \<and> a = w @ ws2)"
    and "same_word s ''SELECT''" and "edge_before pre" and "edge_after post"
  shows "(\<exists>rs. DefaultRules = Some rs \<and> (\<forall>user db.
            d_Action (Decide fold_rune (New rs :: 'w engine) (pre @ (u @ ws1 @ a @ s) @ post) user db)
              = ActionBlock))
       \<and> (\<exists>rs. DefaultPostgresRules = Some rs \<and> (\<forall>user db.
            d_Action (Decide fold_rune (New rs :: 'w engine) (pre @ (u @ ws1 @ a @ s) @ post) user db)
              = ActionBlock))"
  using union_matches [OF assms]
  by (intro conjI
      rule_set_blocks [OF rule_sets_compile(1) DefaultRules_def _ union_pattern, of "''sqli-union-select''"]
      rule_set_blocks [OF rule_sets_compile(2) DefaultPostgresRules_def _ union_pattern,
        of "''sqli-union-select''"])
    simp_all

theorem union_select_blocked_witness:
  "\<exists>rs. DefaultPostgresRules = Some rs \<and> d_Action (Decide ascii_fold (New rs :: unit engine)
      (''1'' @ [CHR 0x27, CHR '' ''] @ (''union'' @ [CHR 0x0C] @ (''ALL'' @ '' '') @ ''seLECT'') @ '' 2'')
      ''app'' ''shop'') = ActionBlock"
proof -
  have "same_word ''union'' ''UNION''" "is_space [CHR 0x0C]" "same_word ''ALL'' ''ALL''" "is_space '' ''"
    "same_word ''seLECT'' ''SELECT''" "edge_before (''1'' @ [CHR 0x27, CHR '' ''])" "edge_after '' 2''"
    by code_simp+
  from union_select_blocked [OF this(1,2) disjI2 this(5-7), of "''ALL'' @ '' ''" ascii_fold] this(3,4)
  show ?thesis by fastforce
qed

end
