(* ===== verification/MongoPacket.thy ===== *)
theory MongoPacket
  imports GoIO
begin

text \<open>
  Framing of the MongoDB wire protocol (\<open>protocol/mongodb/packet.go\<close>): a 16-byte header of four
  little-endian 32-bit integers (message length, request id, response-to, op code) and the payload.
\<close>

definition OpReply :: "32 word" where "OpReply = 1"
definition OpQuery :: "32 word" where "OpQuery = 2004"
definition OpMsg :: "32 word" where "OpMsg = 2013"
definition OpUpdate :: "32 word" where "OpUpdate = 2001"
definition OpInsert :: "32 word" where "OpInsert = 2002"
definition OpDelete :: "32 word" where "OpDelete = 2006"

record mg_packet =
  mg_MessageLength :: "32 word"
  mg_RequestID :: "32 word"
  mg_ResponseTo :: "32 word"
  mg_OpCode :: "32 word"
  mg_Payload :: bytes
  mg_Raw :: bytes

definition IsClientMessage :: "mg_packet \<Rightarrow> bool" where
  "IsClientMessage p \<longleftrightarrow> mg_ResponseTo p = 0"

definition mongo_ReadPacket :: "'s reader \<Rightarrow> 's \<Rightarrow> ((go_error + mg_packet) \<times> 's) option" where
  "mongo_ReadPacket rd s = do {
     (hdr, err, s1) \<leftarrow> ReadFull rd 16 s;
     (case err of
        Some e \<Rightarrow> Some (Inl e, s1)
      | None \<Rightarrow> do {
          f0 \<leftarrow> slice hdr 0 4;
          msgLen \<leftarrow> LE_Uint32 f0;
          if sint msgLen < 16 \<or> 48 * 1024 * 1024 < sint msgLen
          then Some (Inl (Errorf (''mongodb: invalid message length '' @ show_int (sint msgLen))), s1)
          else do {
            f1 \<leftarrow> slice hdr 4 8; requestID \<leftarrow> LE_Uint32 f1;
            f2 \<leftarrow> slice hdr 8 12; responseTo \<leftarrow> LE_Uint32 f2;
            f3 \<leftarrow> slice hdr 12 16; opCode \<leftarrow> LE_Uint32 f3;
            if 16 < sint msgLen then do {
              (body, err, s2) \<leftarrow> ReadFull rd (nat (sint msgLen) - 16) s1;
              (case err of
                 Some e \<Rightarrow> Some (Inl e, s2)
               | None \<Rightarrow> Some (Inr \<lparr>mg_MessageLength = msgLen, mg_RequestID = requestID,
                     mg_ResponseTo = responseTo, mg_OpCode = opCode, mg_Payload = body,
                     mg_Raw = hdr @ body\<rparr>, s2))
            }
            else Some (Inr \<lparr>mg_MessageLength = msgLen, mg_RequestID = requestID,
                     mg_ResponseTo = responseTo, mg_OpCode = opCode, mg_Payload = [],
                     mg_Raw = hdr\<rparr>, s1)
          }
        })
   }"

section \<open>The framer on a flat stream\<close>

definition mg_max :: nat where
  "mg_max = 48 * 1024 * 1024"

text \<open>The four header fields at the front of a stream.\<close>

definition mg_field :: "nat \<Rightarrow> bytes \<Rightarrow> 32 word" where
  "mg_field i bs = of_nat (le_val (take 4 (drop (4 * i) bs)))"

definition mg_header :: "32 word \<Rightarrow> 32 word \<Rightarrow> 32 word \<Rightarrow> 32 word \<Rightarrow> bytes" where
  "mg_header len req resp opc = LE_PutUint32 len @ LE_PutUint32 req @ LE_PutUint32 resp @ LE_PutUint32 opc"

lemma length_mg_header [simp]: "length (mg_header a b c d) = 16"
  by (simp add: mg_header_def)

lemma take_Put [simp]: "take 4 (LE_PutUint32 a @ r) = LE_PutUint32 a"
  by simp

lemma word_of_Put: "of_nat (le_val (LE_PutUint32 a)) = a"
  using LE_Uint32_Put [of a "[]"] by (simp add: LE_Uint32_def)

lemma mg_field_header:
  "mg_field 0 (mg_header a b c d @ r) = a" "mg_field 1 (mg_header a b c d @ r) = b"
  "mg_field 2 (mg_header a b c d @ r) = c" "mg_field 3 (mg_header a b c d @ r) = d"
  by (simp_all add: mg_field_def mg_header_def word_of_Put)

lemma Put_of_field:
  assumes "length b = 4"
  shows "LE_PutUint32 (of_nat (le_val b)) = b"
proof -
  have "le_val b < 2 ^ 32" using le_val_lt [of b] assms by simp
  then have "unat (of_nat (le_val b) :: 32 word) = le_val b" by (simp add: unat_of_nat)
  then show ?thesis using le_bytes_val [of b] assms by (simp add: LE_PutUint32_def)
qed

lemma header_of_fields:
  assumes "16 \<le> length bs"
  shows "mg_header (mg_field 0 bs) (mg_field 1 bs) (mg_field 2 bs) (mg_field 3 bs) = take 16 bs"
proof -
  have "LE_PutUint32 (mg_field i bs) = take 4 (drop (4 * i) bs)" if "i < 4" for i
    unfolding mg_field_def using that assms by (intro Put_of_field) simp
  from this [of 0] this [of 1] this [of 2] this [of 3]
  have "mg_header (mg_field 0 bs) (mg_field 1 bs) (mg_field 2 bs) (mg_field 3 bs) =
      take 4 bs @ take 4 (drop 4 bs) @ take 4 (drop 8 bs) @ take 4 (drop 12 bs)"
    by (simp add: mg_header_def)
  also have "\<dots> = take 16 bs"
    using take_add [of 4 4 bs] take_add [of 8 4 bs] take_add [of 12 4 bs] by simp
  finally show ?thesis .
qed

lemma mongo_ReadPacket_stream:
  "mongo_ReadPacket stream_read (bs, e) = Some (
     if length bs < 16
     then (Inl (if bs \<noteq> [] \<and> e = EOF then UnexpectedEOF else e), ([], e))
     else let n = sint (mg_field 0 bs) in
       if n < 16 \<or> int mg_max < n
       then (Inl (Errorf (''mongodb: invalid message length '' @ show_int n)), (drop 16 bs, e))
       else if length bs < nat n
       then (Inl (if drop 16 bs \<noteq> [] \<and> e = EOF then UnexpectedEOF else e), ([], e))
       else (Inr \<lparr>mg_MessageLength = mg_field 0 bs, mg_RequestID = mg_field 1 bs,
                  mg_ResponseTo = mg_field 2 bs, mg_OpCode = mg_field 3 bs,
                  mg_Payload = take (nat n - 16) (drop 16 bs), mg_Raw = take (nat n) bs\<rparr>,
             (drop (nat n) bs, e)))"
proof (cases "length bs < 16")
  case True
  then show ?thesis by (simp add: mongo_ReadPacket_def ReadFull_stream)
next
  case False
  have fields: "slice (take 16 bs) (4 * i) (4 * i + 4) = Some (take 4 (drop (4 * i) bs))"
    "LE_Uint32 (take 4 (drop (4 * i) bs)) = Some (mg_field i bs)" if "i < 4" for i
  proof -
    have "4 \<le> length bs - 4 * i" "4 * i + 4 \<le> 16" using False that by linarith+
    then show "slice (take 16 bs) (4 * i) (4 * i + 4) = Some (take 4 (drop (4 * i) bs))"
      "LE_Uint32 (take 4 (drop (4 * i) bs)) = Some (mg_field i bs)"
      using False by (simp_all add: slice_def LE_Uint32_def mg_field_def drop_take)
  qed
  note f = fields [of 0, simplified] fields [of 1, simplified] fields [of 2, simplified]
    fields [of 3, simplified]
  let ?n = "sint (mg_field 0 bs)"
  show ?thesis
  proof (cases "?n < 16 \<or> int mg_max < ?n")
    case True
    with False show ?thesis
      by (simp add: mongo_ReadPacket_def ReadFull_stream f mg_max_def)
  next
    case valid: False
    define m where "m = nat ?n - 16"
    moreover have "16 \<le> nat ?n" using valid by (simp add: le_nat_iff)
    ultimately have m: "nat ?n = 16 + m" by simp
    then have "take (nat ?n) bs = take 16 bs @ take m (drop 16 bs)" by (simp only: take_add)
    moreover have "drop (nat ?n) bs = drop m (drop 16 bs)" using m by (simp add: add.commute)
    moreover have "length bs < nat ?n \<longleftrightarrow> length (drop 16 bs) < m"
      using m False by simp linarith
    moreover have "16 < ?n \<longleftrightarrow> m \<noteq> 0" using m by linarith
    moreover have "nat ?n - 16 = m" using m by simp
    ultimately show ?thesis using valid False
      by (cases "m = 0")
        (simp_all add: mongo_ReadPacket_def ReadFull_stream f mg_max_def Let_def
          del: drop_drop length_drop)
  qed
qed

text \<open>The wire form of a message.\<close>

definition mg_frame :: "32 word \<Rightarrow> 32 word \<Rightarrow> 32 word \<Rightarrow> bytes \<Rightarrow> bytes" where
  "mg_frame req resp opc payload = mg_header (of_nat (16 + length payload)) req resp opc @ payload"

lemma sint_mg_len: "16 + n \<le> mg_max \<Longrightarrow> sint (of_nat (16 + n) :: 32 word) = int (16 + n)"
  by (intro sint_small_word32) (simp add: mg_max_def)

lemma mongo_ReadPacket_frame:
  assumes "16 + length payload \<le> mg_max"
  shows "mongo_ReadPacket stream_read (mg_frame req resp opc payload @ rest, e) =
           Some (Inr \<lparr>mg_MessageLength = of_nat (16 + length payload), mg_RequestID = req,
                      mg_ResponseTo = resp, mg_OpCode = opc, mg_Payload = payload,
                      mg_Raw = mg_frame req resp opc payload\<rparr>, (rest, e))"
proof -
  have f: "mg_field 0 (mg_frame req resp opc payload @ rest) = of_nat (16 + length payload)"
    "mg_field 1 (mg_frame req resp opc payload @ rest) = req"
    "mg_field 2 (mg_frame req resp opc payload @ rest) = resp"
    "mg_field 3 (mg_frame req resp opc payload @ rest) = opc"
    by (simp_all add: mg_frame_def mg_field_header [simplified])
  show ?thesis
    unfolding mongo_ReadPacket_stream f sint_mg_len [OF assms]
    using assms by (simp add: mg_frame_def Let_def del: of_nat_add)
qed

lemma mongo_ReadPacket_InrD:
  assumes "mongo_ReadPacket stream_read (bs, e) = Some (Inr pkt, (bs', e'))"
  shows "bs = mg_Raw pkt @ bs'"
    and "mg_Raw pkt = mg_header (mg_MessageLength pkt) (mg_RequestID pkt) (mg_ResponseTo pkt) (mg_OpCode pkt)
           @ mg_Payload pkt"
    and "sint (mg_MessageLength pkt) = int (length (mg_Raw pkt))" and "length (mg_Raw pkt) \<le> mg_max"
proof -
  let ?n = "sint (mg_field 0 bs)"
  have n: "16 \<le> length bs" "16 \<le> ?n" "?n \<le> int mg_max" "nat ?n \<le> length bs"
    and pkt: "pkt = \<lparr>mg_MessageLength = mg_field 0 bs, mg_RequestID = mg_field 1 bs,
        mg_ResponseTo = mg_field 2 bs, mg_OpCode = mg_field 3 bs,
        mg_Payload = take (nat ?n - 16) (drop 16 bs), mg_Raw = take (nat ?n) bs\<rparr>"
      "bs' = drop (nat ?n) bs"
    using assms by (auto simp: mongo_ReadPacket_stream Let_def split: if_splits)
  then show "bs = mg_Raw pkt @ bs'" by simp
  define m where "m = nat ?n - 16"
  moreover have "16 \<le> nat ?n" using n(2) by (simp add: le_nat_iff)
  ultimately have m: "nat ?n = 16 + m" by simp
  then show "mg_Raw pkt = mg_header (mg_MessageLength pkt) (mg_RequestID pkt) (mg_ResponseTo pkt)
      (mg_OpCode pkt) @ mg_Payload pkt"
    using pkt(1) header_of_fields [OF n(1)] by (simp add: take_add)
  show "sint (mg_MessageLength pkt) = int (length (mg_Raw pkt))" "length (mg_Raw pkt) \<le> mg_max"
    using pkt(1) n by simp_all
qed

section \<open>Any reader\<close>

context byte_reader
begin

lemma mongo_ReadPacket_simulates:
  assumes "ok s"
  shows "\<exists>r s'. mongo_ReadPacket read s = Some (r, s') \<and> ok s' \<and> final s' = final s
     \<and> mongo_ReadPacket stream_read (contents s, final s) = Some (r, (contents s', final s'))"
proof -
  obtain hdr err s1 where h: "ReadFull read 16 s = Some (hdr, err, s1)" "ok s1" "final s1 = final s"
    "ReadFull stream_read 16 (contents s, final s) = Some (hdr, err, (contents s1, final s1))"
    by (rule ReadFull_simE [OF assms])
  show ?thesis
  proof (cases err)
    case (Some x)
    with h show ?thesis by (simp add: mongo_ReadPacket_def)
  next
    case None
    then have "length hdr = 16"
      using h(4) by (auto simp: ReadFull_stream split: if_splits)
    then have "\<exists>v. slice hdr 0 4 = Some (take 4 hdr) \<and> LE_Uint32 (take 4 hdr) = Some v"
      "\<exists>v. slice hdr 4 8 = Some (take 4 (drop 4 hdr)) \<and> LE_Uint32 (take 4 (drop 4 hdr)) = Some v"
      "\<exists>v. slice hdr 8 12 = Some (take 4 (drop 8 hdr)) \<and> LE_Uint32 (take 4 (drop 8 hdr)) = Some v"
      "\<exists>v. slice hdr 12 16 = Some (take 4 (drop 12 hdr)) \<and> LE_Uint32 (take 4 (drop 12 hdr)) = Some v"
      by (simp_all add: slice_def LE_Uint32_def)
    then obtain v0 v1 v2 v3 where f:
      "slice hdr 0 4 = Some (take 4 hdr)" "LE_Uint32 (take 4 hdr) = Some v0"
      "slice hdr 4 8 = Some (take 4 (drop 4 hdr))" "LE_Uint32 (take 4 (drop 4 hdr)) = Some v1"
      "slice hdr 8 12 = Some (take 4 (drop 8 hdr))" "LE_Uint32 (take 4 (drop 8 hdr)) = Some v2"
      "slice hdr 12 16 = Some (take 4 (drop 12 hdr))" "LE_Uint32 (take 4 (drop 12 hdr)) = Some v3"
      by blast
    obtain body err2 s2 where b: "ReadFull read (nat (sint v0) - 16) s1 = Some (body, err2, s2)"
      "ok s2" "final s2 = final s1"
      "ReadFull stream_read (nat (sint v0) - 16) (contents s1, final s1) =
         Some (body, err2, (contents s2, final s2))"
      by (rule ReadFull_simE [OF h(2)])
    show ?thesis using None h b f
      by (cases err2) (simp_all add: mongo_ReadPacket_def)
  qed
qed

lemma mongo_ReadPacket_reader_sound:
  assumes "ok s" and "mongo_ReadPacket read s = Some (Inr pkt, s')"
  shows "contents s = mg_Raw pkt @ contents s'"
    and "mg_Raw pkt = mg_header (mg_MessageLength pkt) (mg_RequestID pkt) (mg_ResponseTo pkt) (mg_OpCode pkt)
           @ mg_Payload pkt"
    and "sint (mg_MessageLength pkt) = int (length (mg_Raw pkt))" and "length (mg_Raw pkt) \<le> mg_max"
  using mongo_ReadPacket_simulates [OF assms(1)] assms(2) mongo_ReadPacket_InrD
  by (metis option.inject prod.inject)+

lemma mongo_ReadPacket_reader_frame:
  assumes "ok s" and "contents s = mg_frame req resp opc payload @ rest"
    and "16 + length payload \<le> mg_max"
  shows "\<exists>s'. mongo_ReadPacket read s =
      Some (Inr \<lparr>mg_MessageLength = of_nat (16 + length payload), mg_RequestID = req,
                 mg_ResponseTo = resp, mg_OpCode = opc, mg_Payload = payload,
                 mg_Raw = mg_frame req resp opc payload\<rparr>, s') \<and> ok s' \<and> contents s' = rest"
  using mongo_ReadPacket_simulates [OF assms(1)] mongo_ReadPacket_frame [OF assms(3)] assms(2) by fastforce

end

section \<open>Properties\<close>

text \<open>
  C24: A MongoDB message read off any connection, however segmented, is verbatim: \<open>Raw\<close> is exactly the
  bytes consumed, made of the header with the four returned fields and of \<open>Payload\<close>; \<open>MessageLength\<close>
  is the length of \<open>Raw\<close> and never above 48 MiB.
\<close>

theorem mongo_read_verbatim:
  assumes "conn_ok c" and "mongo_ReadPacket conn_read c = Some (Inr pkt, c')"
  shows "conn_bytes c = mg_Raw pkt @ conn_bytes c'
       \<and> mg_Raw pkt = mg_header (mg_MessageLength pkt) (mg_RequestID pkt) (mg_ResponseTo pkt) (mg_OpCode pkt)
            @ mg_Payload pkt
       \<and> sint (mg_MessageLength pkt) = int (length (mg_Raw pkt))
       \<and> length (mg_Raw pkt) \<le> 48 * 1024 * 1024"
  using conn.mongo_ReadPacket_reader_sound [OF assms] by (simp add: mg_max_def)

theorem mongo_read_verbatim_witness:
  "\<exists>c'. mongo_ReadPacket conn_read \<lparr>segments = [mg_frame 7 0 2013 [1, 2, 3], [9]], close_err = EOF\<rparr> =
       Some (Inr \<lparr>mg_MessageLength = of_nat 19, mg_RequestID = 7, mg_ResponseTo = 0, mg_OpCode = 2013,
                  mg_Payload = [1, 2, 3], mg_Raw = mg_frame 7 0 2013 [1, 2, 3]\<rparr>, c')
     \<and> mg_frame 7 0 2013 [1, 2, 3] @ [9] = mg_frame 7 0 2013 [1, 2, 3] @ conn_bytes c'"
proof -
  let ?f = "mg_frame 7 0 2013 [1, 2, 3]"
  let ?c = "\<lparr>segments = [?f, [9]], close_err = EOF\<rparr>"
  have "?f \<noteq> []" by (metis length_mg_header mg_frame_def append_is_Nil_conv list.size(3) zero_neq_numeral)
  then have ok: "conn_ok ?c" by (simp add: conn_ok_def)
  have "conn_bytes ?c = ?f @ [9]" by (simp add: conn_bytes_def)
  from conn.mongo_ReadPacket_reader_frame [OF ok this] obtain c' where
    rd: "mongo_ReadPacket conn_read ?c =
       Some (Inr \<lparr>mg_MessageLength = of_nat 19, mg_RequestID = 7, mg_ResponseTo = 0, mg_OpCode = 2013,
                  mg_Payload = [1, 2, 3], mg_Raw = ?f\<rparr>, c')"
    by (auto simp: mg_max_def)
  from mongo_read_verbatim [OF ok rd] rd show ?thesis by (auto simp: conn_bytes_def)
qed

end
