(* ===== verification/MongoBson.thy ===== *)
theory MongoBson
  imports Prelude
begin

text \<open>
  The BSON reader (\<open>protocol/mongodb/bson.go\<close>): the top-level string fields of a document, its first
  element, and the byte scans for dangerous operators and empty filters. Lengths are read as unsigned
  32-bit values into Go's 64-bit \<open>int\<close>, so offsets never wrap and are natural numbers here; only the
  result of \<open>skipBSONValue\<close> can be negative. None is a run-time panic, and it never occurs.
\<close>

definition bsonDouble :: byte where "bsonDouble = 0x01"
definition bsonString :: byte where "bsonString = 0x02"
definition bsonDocument :: byte where "bsonDocument = 0x03"
definition bsonArray :: byte where "bsonArray = 0x04"
definition bsonBinary :: byte where "bsonBinary = 0x05"
definition bsonObjectID :: byte where "bsonObjectID = 0x07"
definition bsonBool :: byte where "bsonBool = 0x08"
definition bsonDatetime :: byte where "bsonDatetime = 0x09"
definition bsonNull :: byte where "bsonNull = 0x0A"
definition bsonRegex :: byte where "bsonRegex = 0x0B"
definition bsonInt32 :: byte where "bsonInt32 = 0x10"
definition bsonTimestamp :: byte where "bsonTimestamp = 0x11"
definition bsonInt64 :: byte where "bsonInt64 = 0x12"
definition bsonDecimal :: byte where "bsonDecimal = 0x13"
definition bsonMinKey :: byte where "bsonMinKey = 0xFF"
definition bsonMaxKey :: byte where "bsonMaxKey = 0x7F"

lemmas bson_types =
  bsonDouble_def bsonString_def bsonDocument_def bsonArray_def bsonBinary_def bsonObjectID_def
  bsonBool_def bsonDatetime_def bsonNull_def bsonRegex_def bsonInt32_def bsonTimestamp_def
  bsonInt64_def bsonDecimal_def bsonMinKey_def bsonMaxKey_def

section \<open>Walking a document\<close>

text \<open>\<open>int(binary.LittleEndian.Uint32(data[pos:]))\<close>.\<close>

definition read_len :: "bytes \<Rightarrow> nat \<Rightarrow> nat option" where
  "read_len data pos = do { b \<leftarrow> slice_from data pos; v \<leftarrow> LE_Uint32 b; Some (unat v) }"

definition skipBSONValue :: "bytes \<Rightarrow> nat \<Rightarrow> byte \<Rightarrow> int option" where
  "skipBSONValue data pos typ =
     (if typ = bsonDouble then Some 8
      else if typ = bsonString then
        (if length data < pos + 4 then Some (-1)
         else do { n \<leftarrow> read_len data pos; Some (4 + int n) })
      else if typ = bsonDocument \<or> typ = bsonArray then
        (if length data < pos + 4 then Some (-1)
         else do { n \<leftarrow> read_len data pos; Some (int n) })
      else if typ = bsonBinary then
        (if length data < pos + 4 then Some (-1)
         else do { n \<leftarrow> read_len data pos; Some (4 + 1 + int n) })
      else if typ = bsonObjectID then Some 12
      else if typ = bsonBool then Some 1
      else if typ = bsonDatetime \<or> typ = bsonInt64 \<or> typ = bsonTimestamp then Some 8
      else if typ = bsonNull \<or> typ = bsonMinKey \<or> typ = bsonMaxKey then Some 0
      else if typ = bsonInt32 then Some 4
      else if typ = bsonDecimal then Some 16
      else if typ = bsonRegex then
        Some (int (scan_nul data (scan_nul data pos + 1) + 1) - int pos)
      else Some (-1))"

text \<open>The string value at \<open>pos\<close>, when the element is a string that fits the data.\<close>

definition string_value :: "bytes \<Rightarrow> nat \<Rightarrow> byte \<Rightarrow> string option option" where
  "string_value data pos typ =
     (if typ = bsonString \<and> pos + 4 \<le> length data then do {
        strLen \<leftarrow> read_len data pos;
        let end = pos + 4 + strLen;
        if end \<le> length data \<and> 0 < strLen
        then do { v \<leftarrow> slice data (pos + 4) (end - 1); Some (Some (str_of v)) }
        else Some None
      }
      else Some None)"

text \<open>The loop of \<open>ParseTopLevel\<close> over the elements, with the result map.\<close>

function top_level_loop ::
  "bytes \<Rightarrow> nat \<Rightarrow> nat \<Rightarrow> (string \<rightharpoonup> string) \<Rightarrow> (string \<rightharpoonup> string) option"
where
  "top_level_loop data docLen pos result =
     (if pos < docLen - 1 \<and> pos < length data then do {
        typ \<leftarrow> index data pos;
        if typ = 0 then Some result
        else if length data \<le> scan_nul data (pos + 1) then Some result
        else do {
          key \<leftarrow> slice data (pos + 1) (scan_nul data (pos + 1));
          advance \<leftarrow> skipBSONValue data (scan_nul data (pos + 1) + 1) typ;
          if advance < 0 then Some result
          else do {
            v \<leftarrow> string_value data (scan_nul data (pos + 1) + 1) typ;
            top_level_loop data docLen (scan_nul data (pos + 1) + 1 + nat advance)
              (case v of Some s \<Rightarrow> result(str_of key \<mapsto> s) | None \<Rightarrow> result)
          }
        }
      }
      else Some result)"
  by pat_completeness auto
termination
proof (relation "measure (\<lambda>(data, docLen, pos, result). length data - pos)", goal_cases)
  case (2 data docLen pos)
  from 2(1) have "pos < length data" by simp
  then show ?case
    using scan_nul_ge [of "pos + 1" data]
    by (simp del: scan_nul_ge add_Suc_right Suc_eq_plus1_left)
qed simp

declare top_level_loop.simps [simp del]

definition ParseTopLevel :: "bytes \<Rightarrow> (string \<rightharpoonup> string) option" where
  "ParseTopLevel data =
     (if length data < 5 then Some Map.empty
      else do {
        b \<leftarrow> slice data 0 4;
        v \<leftarrow> LE_Uint32 b;
        let docLen = unat v;
        if length data < docLen \<or> docLen < 5 then Some Map.empty
        else top_level_loop data docLen 4 Map.empty
      })"

definition FirstKeyValue :: "bytes \<Rightarrow> (string \<times> string) option" where
  "FirstKeyValue data =
     (if length data < 5 then Some ([], [])
      else do {
        b \<leftarrow> slice data 0 4;
        v \<leftarrow> LE_Uint32 b;
        let docLen = unat v;
        if length data < docLen \<or> docLen < 5 then Some ([], [])
        else do {
          let pos = 4;
          if length data \<le> pos then Some ([], [])
          else do {
            typ \<leftarrow> index data pos;
            let pos = pos + 1;
            if typ = 0 then Some ([], [])
            else do {
              let keyEnd = scan_nul data pos;
              if length data \<le> keyEnd then Some ([], [])
              else do {
                key \<leftarrow> slice data pos keyEnd;
                v \<leftarrow> string_value data (keyEnd + 1) typ;
                Some (str_of key, case v of Some s \<Rightarrow> s | None \<Rightarrow> [])
              }
            }
          }
        }
      })"

section \<open>Scans\<close>

text \<open>\<open>bytes.Contains\<close>.\<close>

fun contains :: "bytes \<Rightarrow> bytes \<Rightarrow> bool" where
  "contains [] sub \<longleftrightarrow> sub = []"
| "contains (b # data) sub \<longleftrightarrow> take (length sub) (b # data) = sub \<or> contains data sub"

definition dangerousOps :: "bytes list" where
  "dangerousOps = [bytes_of ''$where'', bytes_of ''$function'', bytes_of ''$accumulator'']"

definition ScanDangerousOps :: "bytes \<Rightarrow> string list" where
  "ScanDangerousOps data = map str_of (filter (\<lambda>op. contains data op) dangerousOps)"

definition HasEmptyFilter :: "bytes \<Rightarrow> bool" where
  "HasEmptyFilter data = contains data [0x05, 0x00, 0x00, 0x00, 0x00]"

lemma contains_iff: "contains data sub \<longleftrightarrow> (\<exists>a b. data = a @ sub @ b)"
proof (induction data)
  case (Cons x data)
  have "take (length sub) (x # data) = sub \<longleftrightarrow> (\<exists>b. x # data = sub @ b)"
    by (metis append_eq_conv_conj append_take_drop_id)
  then show ?case using Cons
    by (auto simp: Cons_eq_append_conv)
qed auto

section \<open>No panics\<close>

lemma read_len_Some: "pos + 4 \<le> length data \<Longrightarrow> read_len data pos = Some (le_val (take 4 (drop pos data)))"
  by (simp add: read_len_def slice_from_def LE_Uint32_def unat_word32_le)

lemma skipBSONValue_returns: "skipBSONValue data pos typ \<noteq> None"
  by (simp add: skipBSONValue_def read_len_Some not_less)

lemma string_value_returns: "string_value data pos typ \<noteq> None"
  by (auto simp: string_value_def read_len_Some slice_def Let_def)

lemma top_level_loop_returns: "top_level_loop data docLen pos result \<noteq> None"
proof (induction data docLen pos result rule: top_level_loop.induct)
  case (1 data docLen pos result)
  show ?case
  proof (cases "pos < docLen - 1 \<and> pos < length data \<and> data ! pos \<noteq> 0
      \<and> scan_nul data (pos + 1) < length data")
    case False
    then show ?thesis
      by (auto simp: top_level_loop.simps [of data docLen pos] index_def)
  next
    case True
    obtain a where a: "skipBSONValue data (scan_nul data (pos + 1) + 1) (data ! pos) = Some a"
      using skipBSONValue_returns by blast
    obtain v where v: "string_value data (scan_nul data (pos + 1) + 1) (data ! pos) = Some v"
      using string_value_returns by blast
    have k: "slice data (pos + 1) (scan_nul data (pos + 1)) \<noteq> None"
      using True scan_nul_ge [of "pos + 1" data] by (simp add: slice_def)
    show ?thesis
      using 1 True a v k by (auto simp: top_level_loop.simps [of data docLen pos] index_def)
  qed
qed

lemma ParseTopLevel_returns: "ParseTopLevel data \<noteq> None"
  using top_level_loop_returns by (auto simp: ParseTopLevel_def go_access Let_def)

lemma FirstKeyValue_returns: "FirstKeyValue data \<noteq> None"
proof -
  have "slice data 5 (scan_nul data 5) \<noteq> None" if "scan_nul data 5 < length data"
    using that scan_nul_ge [of 5 data] by (simp add: slice_def)
  moreover have "\<exists>v. string_value data (Suc (scan_nul data 5)) t = Some v" for t
    using string_value_returns by blast
  ultimately show ?thesis
    by (auto simp: FirstKeyValue_def slice_def [of data 0] LE_Uint32_def index_def Let_def
        Option.bind_eq_None_conv string_value_returns simp del: not_None_eq)
qed

section \<open>Documents\<close>

text \<open>
  What a well-formed value of each supported element type looks like on the wire, and documents made
  of elements (type, key, value bytes).
\<close>

fun bson_value :: "byte \<Rightarrow> bytes \<Rightarrow> bool" where
  "bson_value t v \<longleftrightarrow>
     (if t = bsonDouble \<or> t = bsonDatetime \<or> t = bsonInt64 \<or> t = bsonTimestamp then length v = 8
      else if t = bsonString then
        (\<exists>s. v = le_bytes 4 (length s + 1) @ s @ [0] \<and> length s + 1 < 2 ^ 32)
      else if t = bsonDocument \<or> t = bsonArray then 4 \<le> length v \<and> le_val (take 4 v) = length v
      else if t = bsonBinary then (\<exists>sub d. v = le_bytes 4 (length d) @ sub # d \<and> length d < 2 ^ 32)
      else if t = bsonObjectID then length v = 12
      else if t = bsonBool then length v = 1
      else if t = bsonNull \<or> t = bsonMinKey \<or> t = bsonMaxKey then v = []
      else if t = bsonInt32 then length v = 4
      else if t = bsonDecimal then length v = 16
      else if t = bsonRegex then (\<exists>p f. v = p @ 0 # f @ [0] \<and> 0 \<notin> set p \<and> 0 \<notin> set f)
      else False)"

declare bson_value.simps [simp del]

type_synonym bson_elem = "byte \<times> string \<times> bytes"

definition elem_bytes :: "bson_elem \<Rightarrow> bytes" where
  "elem_bytes el = (case el of (t, k, v) \<Rightarrow> t # bytes_of k @ 0 # v)"

definition elem_ok :: "bson_elem \<Rightarrow> bool" where
  "elem_ok el \<longleftrightarrow> (case el of (t, k, v) \<Rightarrow> no_nul k \<and> bson_value t v)"

definition doc_bytes :: "bson_elem list \<Rightarrow> bytes" where
  "doc_bytes es =
     (let body = concat (map elem_bytes es) in le_bytes 4 (length body + 5) @ body @ [0])"

definition doc_ok :: "bson_elem list \<Rightarrow> bool" where
  "doc_ok es \<longleftrightarrow> (\<forall>el \<in> set es. elem_ok el) \<and> length (doc_bytes es) < 2 ^ 32"

text \<open>The string a string value carries, and the fields a document's string elements define.\<close>

definition string_of_value :: "bytes \<Rightarrow> string" where
  "string_of_value v = str_of (butlast (drop 4 v))"

definition add_field :: "(string \<rightharpoonup> string) \<Rightarrow> bson_elem \<Rightarrow> (string \<rightharpoonup> string)" where
  "add_field m el = (case el of (t, k, v) \<Rightarrow>
     if t = bsonString then m(k \<mapsto> string_of_value v) else m)"

definition string_fields :: "bson_elem list \<Rightarrow> (string \<rightharpoonup> string)" where
  "string_fields es = foldl add_field Map.empty es"

text \<open>A string element.\<close>

definition string_elem :: "string \<Rightarrow> string \<Rightarrow> bson_elem" where
  "string_elem k s = (bsonString, k, le_bytes 4 (length s + 1) @ bytes_of s @ [0])"

lemma string_elem_ok [simp]: "elem_ok (string_elem k s) \<longleftrightarrow> no_nul k \<and> length s + 1 < 2 ^ 32"
proof -
  have "length s = length v \<and> length v < 4294967295" if "le_bytes 4 (Suc (length s)) @ bytes_of s
      = le_bytes 4 (Suc (length v)) @ v" "length v < 4294967295" for v
    using that by (metis append_eq_append_conv length_bytes_of length_le_bytes)
  then show ?thesis
    by (fastforce simp: elem_ok_def string_elem_def bson_value.simps bson_types
        intro: exI [of _ "bytes_of s"])
qed

lemma add_string_elem [simp]: "add_field m (string_elem k s) = m(k \<mapsto> s)"
  by (simp add: add_field_def string_elem_def string_of_value_def butlast_append)

lemma add_field_elem:
  "add_field m (t, k, v) = (if t = bsonString then m(k \<mapsto> string_of_value v) else m)"
  by (simp add: add_field_def)

lemma elem_type_nonzero: "bson_value t v \<Longrightarrow> t \<noteq> 0"
  by (auto simp: bson_value.simps bson_types split: if_splits)

lemma read_len_at:
  "n < 2 ^ 32 \<Longrightarrow> read_len (pre @ le_bytes 4 n @ r) (length pre) = Some n"
  by (simp add: read_len_Some le_val_bytes)

lemma scan_two_fields:
  assumes "0 \<notin> set p" and "0 \<notin> set f"
  shows "scan_nul (pre @ p @ 0 # f @ 0 # r) (scan_nul (pre @ p @ 0 # f @ 0 # r) (length pre) + 1) + 1
       = length pre + length p + length f + 2"
  using scan_nul_field [OF assms(1), of pre "f @ 0 # r"]
    scan_nul_field [OF assms(2), of "pre @ p @ [0]" r] by simp

text \<open>The skipper computes the width of every well-formed value.\<close>

lemma skipBSONValue_width:
  assumes "bson_value t v"
  shows "skipBSONValue (pre @ v @ r) (length pre) t = Some (int (length v))"
proof -
  consider (str) "t = bsonString" | (doc) "t = bsonDocument \<or> t = bsonArray" | (bin) "t = bsonBinary"
    | (reg) "t = bsonRegex"
    | (fixed) "t \<notin> {bsonString, bsonDocument, bsonArray, bsonBinary, bsonRegex}" by blast
  then show ?thesis
  proof cases
    case str
    then obtain s where "v = le_bytes 4 (length s + 1) @ s @ [0]" "length s + 1 < 2 ^ 32"
      using assms by (auto simp: bson_value.simps bson_types)
    with str read_len_at [of "length s + 1" pre "s @ 0 # r"] show ?thesis
      by (simp add: skipBSONValue_def bson_types)
  next
    case doc
    then have v: "4 \<le> length v" "le_val (take 4 v) = length v"
      using assms by (auto simp: bson_value.simps bson_types)
    then have "read_len (pre @ v @ r) (length pre) = Some (length v)"
      by (simp add: read_len_Some)
    with doc v show ?thesis by (auto simp: skipBSONValue_def bson_types)
  next
    case bin
    then obtain sub d where "v = le_bytes 4 (length d) @ sub # d" "length d < 2 ^ 32"
      using assms by (auto simp: bson_value.simps bson_types)
    with bin read_len_at [of "length d" pre "sub # d @ r"] show ?thesis
      by (simp add: skipBSONValue_def bson_types)
  next
    case reg
    then obtain p f where "v = p @ 0 # f @ [0]" "0 \<notin> set p" "0 \<notin> set f"
      using assms by (auto simp: bson_value.simps bson_types)
    with reg scan_two_fields [of p f pre r] show ?thesis
      by (simp add: skipBSONValue_def bson_types)
  next
    case fixed
    have "t \<in> {bsonDouble, bsonDatetime, bsonInt64, bsonTimestamp, bsonObjectID, bsonBool, bsonNull,
        bsonMinKey, bsonMaxKey, bsonInt32, bsonDecimal}"
      by (rule ccontr) (use assms fixed in \<open>simp add: bson_value.simps\<close>)
    then show ?thesis using assms
      by (elim insertE emptyE) (simp_all add: bson_value.simps skipBSONValue_def bson_types)
  qed
qed

lemma string_value_at:
  assumes "bson_value t v"
  shows "string_value (pre @ v @ r) (length pre) t =
           Some (if t = bsonString then Some (string_of_value v) else None)"
proof (cases "t = bsonString")
  case True
  then obtain s where v: "v = le_bytes 4 (length s + 1) @ s @ [0]" "length s + 1 < 2 ^ 32"
    using assms by (auto simp: bson_value.simps bson_types)
  have "slice (pre @ v @ r) (length pre + 4) (length pre + (4 + length s)) = Some s"
    using slice_append [of "pre @ le_bytes 4 (length s + 1)" s "0 # r"] v(1) by (simp add: add.assoc)
  moreover have "string_of_value v = str_of s" using v(1) by (simp add: string_of_value_def butlast_append)
  ultimately show ?thesis
    using True v read_len_at [of "length s + 1" pre "s @ 0 # r"]
    by (simp add: string_value_def Let_def ac_simps)
qed (simp add: string_value_def)

lemma key_at:
  assumes "no_nul k"
  shows "scan_nul (pre @ (t # bytes_of k @ 0 # v) @ r) (Suc (length pre)) = Suc (length pre) + length k"
    and "slice (pre @ (t # bytes_of k @ 0 # v) @ r) (Suc (length pre)) (Suc (length pre) + length k)
           = Some (bytes_of k)"
  using scan_nul_field [of "bytes_of k" "pre @ [t]" "v @ r"] assms
    slice_append [of "pre @ [t]" "bytes_of k" "0 # v @ r"]
  by (simp_all add: no_nul_bytes)

lemma top_level_step:
  assumes "elem_ok (t, k, v)" and "length pre < docLen - 1"
  shows "top_level_loop (pre @ elem_bytes (t, k, v) @ r) docLen (length pre) m =
           top_level_loop (pre @ elem_bytes (t, k, v) @ r) docLen
             (length (pre @ elem_bytes (t, k, v))) (add_field m (t, k, v))"
proof -
  have ok: "no_nul k" "bson_value t v" using assms(1) by (simp_all add: elem_ok_def)
  let ?d = "pre @ (t # bytes_of k @ 0 # v) @ r"
  let ?vp = "Suc (Suc (length pre) + length k)"
  have "skipBSONValue ?d ?vp t = Some (int (length v))"
    using skipBSONValue_width [OF ok(2), of "pre @ t # bytes_of k @ [0]" r] by simp
  moreover have "string_value ?d ?vp t = Some (if t = bsonString then Some (string_of_value v) else None)"
    using string_value_at [OF ok(2), of "pre @ t # bytes_of k @ [0]" r] by simp
  moreover note key_at [OF ok(1), of pre t v r]
  ultimately show ?thesis
    using assms(2) elem_type_nonzero [OF ok(2)]
    by (simp add: elem_bytes_def top_level_loop.simps [of _ docLen "length pre"] index_def add_field_def
        add.assoc)
qed

lemma top_level_elems:
  assumes "\<forall>el \<in> set es. elem_ok el" and "length (pre @ concat (map elem_bytes es)) \<le> docLen - 1"
  shows "top_level_loop (pre @ concat (map elem_bytes es) @ r) docLen (length pre) m =
           top_level_loop (pre @ concat (map elem_bytes es) @ r) docLen
             (length (pre @ concat (map elem_bytes es))) (foldl add_field m es)"
  using assms
proof (induction es arbitrary: pre m)
  case (Cons el es)
  obtain t k v where el: "el = (t, k, v)" by (cases el)
  have "length pre < docLen - 1" using Cons.prems(2) by (simp add: el elem_bytes_def)
  with top_level_step [of t k v pre docLen "concat (map elem_bytes es) @ r" m] Cons.prems(1) el
  have "top_level_loop (pre @ concat (map elem_bytes (el # es)) @ r) docLen (length pre) m =
      top_level_loop ((pre @ elem_bytes el) @ concat (map elem_bytes es) @ r) docLen
        (length (pre @ elem_bytes el)) (add_field m el)"
    by simp
  with Cons.IH [of "pre @ elem_bytes el" "add_field m el"] Cons.prems show ?case by simp
qed simp

lemma doc_length:
  assumes "length (doc_bytes es) < 2 ^ 32"
  shows "le_val (take 4 (doc_bytes es @ r)) = length (doc_bytes es)" and "5 \<le> length (doc_bytes es)"
  using assms by (simp_all add: doc_bytes_def Let_def le_val_bytes)

lemma ParseTopLevel_start:
  assumes "length (doc_bytes es) < 2 ^ 32"
  shows "ParseTopLevel (doc_bytes es @ r) =
           top_level_loop (doc_bytes es @ r) (length (doc_bytes es)) 4 Map.empty"
proof -
  have "length (doc_bytes es) mod 4294967296 = length (doc_bytes es)" using assms by simp
  then show ?thesis
    using doc_length(1) [OF assms, of r] doc_length(2) [OF assms]
    by (simp add: ParseTopLevel_def slice_def LE_Uint32_def unat_word32_le Let_def unat_of_nat
        take_bit_eq_mod del: take_append)
qed

lemma loop_over_elems:
  assumes "\<forall>el \<in> set es. elem_ok el" and "length (doc_bytes (es @ fs)) < 2 ^ 32"
  shows "ParseTopLevel (doc_bytes (es @ fs) @ r) =
           top_level_loop (doc_bytes (es @ fs) @ r) (length (doc_bytes (es @ fs)))
             (4 + length (concat (map elem_bytes es))) (string_fields es)"
proof -
  let ?n = "length (concat (map elem_bytes (es @ fs))) + 5"
  let ?pre = "le_bytes 4 ?n"
  let ?r = "concat (map elem_bytes fs) @ [0] @ r"
  have d: "doc_bytes (es @ fs) @ r = ?pre @ concat (map elem_bytes es) @ ?r"
    by (simp add: doc_bytes_def Let_def)
  have "length (?pre @ concat (map elem_bytes es)) \<le> length (doc_bytes (es @ fs)) - 1"
    by (simp add: doc_bytes_def Let_def)
  from top_level_elems [OF assms(1) this, of ?r Map.empty] show ?thesis
    using ParseTopLevel_start [OF assms(2), of r] unfolding d by (simp add: string_fields_def)
qed

lemma ParseTopLevel_doc: "doc_ok es \<Longrightarrow> ParseTopLevel (doc_bytes es @ r) = Some (string_fields es)"
  using loop_over_elems [of es "[]" r]
  by (simp add: doc_ok_def top_level_loop.simps)
    (simp add: doc_bytes_def Let_def)

text \<open>
  C12: on every document made of well-formed elements of the supported types (nested documents and
  arrays included), whatever follows it in the buffer, \<open>ParseTopLevel\<close> returns exactly the
  document's top-level string fields: no field is lost or invented, and of duplicate keys the last
  wins.
\<close>

theorem ParseTopLevel_document:
  assumes "doc_ok es"
  shows "ParseTopLevel (doc_bytes es @ r) = Some (string_fields es)"
  using assms by (rule ParseTopLevel_doc)

theorem ParseTopLevel_document_witness:
  "ParseTopLevel (doc_bytes [string_elem ''insert'' ''ord'', (bsonBool, ''ordered'', [1]),
       (bsonDocument, ''lsid'', [5, 0, 0, 0, 0]), string_elem ''$db'' ''x''] @ [1, 2])
     = Some (Map.empty(''insert'' \<mapsto> ''ord'', ''$db'' \<mapsto> ''x''))"
proof -
  let ?es = "[string_elem ''insert'' ''ord'', (bsonBool, ''ordered'', [1]),
     (bsonDocument, ''lsid'', [5, 0, 0, 0, 0]), string_elem ''$db'' ''x'']"
  have "le_val [5, 0, 0, 0 :: byte] = 5" by code_simp
  then have "bson_value bsonDocument [5, 0, 0, 0, 0]" "bson_value bsonBool [1]"
    by (simp_all add: bson_value.simps bson_types)
  moreover have "no_nul ''insert'' \<and> no_nul ''ordered'' \<and> no_nul ''lsid'' \<and> no_nul ''$db''"
    by code_simp
  moreover have "length (doc_bytes ?es) < 2 ^ 32"
    by (simp add: doc_bytes_def elem_bytes_def string_elem_def)
  ultimately have "doc_ok ?es" by (simp add: doc_ok_def elem_ok_def [of "(bsonBool, _, _)"]
        elem_ok_def [of "(bsonDocument, _, _)"])
  moreover have "string_fields ?es = Map.empty(''insert'' \<mapsto> ''ord'', ''$db'' \<mapsto> ''x'')"
    by (simp add: string_fields_def add_field_elem bson_types)
  ultimately show ?thesis using ParseTopLevel_document [of ?es "[1, 2]"] by simp
qed

text \<open>The element types \<open>skipBSONValue\<close> knows.\<close>

definition supported :: "byte \<Rightarrow> bool" where
  "supported t \<longleftrightarrow> t \<in> set [bsonDouble, bsonString, bsonDocument, bsonArray, bsonBinary, bsonObjectID,
     bsonBool, bsonDatetime, bsonNull, bsonRegex, bsonInt32, bsonTimestamp, bsonInt64, bsonDecimal,
     bsonMinKey, bsonMaxKey]"

lemma skip_unsupported: "\<not> supported t \<Longrightarrow> skipBSONValue data pos t = Some (-1)"
  by (auto simp: skipBSONValue_def supported_def)

lemma top_level_unsupported:
  assumes "\<not> supported t" and "no_nul k" and "length pre < docLen - 1"
  shows "top_level_loop (pre @ (t # bytes_of k @ 0 # v) @ r) docLen (length pre) m = Some m"
  using key_at [OF assms(2), of pre t v r] skip_unsupported [OF assms(1)] assms(3)
  by (simp add: top_level_loop.simps [of _ docLen "length pre"] index_def)

text \<open>
  C40: an element of a type the skipper does not know (JavaScript code, symbols and the other
  deprecated types of the BSON specification) ends the scan: whatever the element holds and whatever
  elements follow it, \<open>ParseTopLevel\<close> returns only the fields before it. A client that puts such an
  element in front of \<open>$db\<close> hides the database from the firewall.
\<close>

theorem ParseTopLevel_stops_at_unsupported:
  assumes "\<forall>el \<in> set es. elem_ok el" and "\<not> supported t" and "no_nul k"
    and "length (doc_bytes (es @ (t, k, v) # rest)) < 2 ^ 32"
  shows "ParseTopLevel (doc_bytes (es @ (t, k, v) # rest) @ r) = Some (string_fields es)"
proof -
  let ?pre = "le_bytes 4 (length (concat (map elem_bytes (es @ (t, k, v) # rest))) + 5)
    @ concat (map elem_bytes es)"
  let ?r = "concat (map elem_bytes rest) @ [0] @ r"
  have d: "doc_bytes (es @ (t, k, v) # rest) @ r = ?pre @ (t # bytes_of k @ 0 # v) @ ?r"
    by (simp add: doc_bytes_def Let_def elem_bytes_def)
  have "length ?pre < length (doc_bytes (es @ (t, k, v) # rest)) - 1"
    by (simp add: doc_bytes_def Let_def elem_bytes_def)
  from top_level_unsupported [OF assms(2,3) this, of v ?r]
  have "top_level_loop (doc_bytes (es @ (t, k, v) # rest) @ r)
      (length (doc_bytes (es @ (t, k, v) # rest))) (length ?pre) m = Some m" for m
    unfolding d by blast
  then show ?thesis using loop_over_elems [OF assms(1,4), of r] by simp
qed

theorem ParseTopLevel_stops_at_unsupported_witness:
  "ParseTopLevel (doc_bytes ([string_elem ''find'' ''users''] @ (0x0D, ''comment'', [1, 0, 0, 0, 0])
     # [string_elem ''$db'' ''prod'']) @ []) = Some (Map.empty(''find'' \<mapsto> ''users''))"
proof -
  have "\<not> supported 0x0D" by (simp add: supported_def bson_types)
  moreover have "no_nul ''find''" "no_nul ''comment''" by code_simp+
  moreover have "length (doc_bytes ([string_elem ''find'' ''users'']
      @ (0x0D, ''comment'', [1, 0, 0, 0, 0]) # [string_elem ''$db'' ''prod''])) < 2 ^ 32"
    by (simp add: doc_bytes_def elem_bytes_def string_elem_def)
  ultimately show ?thesis
    by (subst ParseTopLevel_stops_at_unsupported) (simp_all add: string_fields_def)
qed

lemma FirstKeyValue_document:
  assumes "elem_ok (t, k, v)" and "length (doc_bytes ((t, k, v) # es)) < 2 ^ 32"
  shows "FirstKeyValue (doc_bytes ((t, k, v) # es) @ r)
           = Some (k, if t = bsonString then string_of_value v else [])"
proof -
  have ok: "no_nul k" "bson_value t v" using assms(1) by (simp_all add: elem_ok_def)
  let ?pre = "le_bytes 4 (length (concat (map elem_bytes ((t, k, v) # es))) + 5)"
  let ?r = "concat (map elem_bytes es) @ [0] @ r"
  let ?d = "?pre @ (t # bytes_of k @ 0 # v) @ ?r"
  have d: "doc_bytes ((t, k, v) # es) @ r = ?d"
    by (simp add: doc_bytes_def Let_def elem_bytes_def)
  have len: "length (doc_bytes ((t, k, v) # es)) mod 4294967296 = length (doc_bytes ((t, k, v) # es))"
    using assms(2) by simp
  have val: "string_value ?d (Suc (5 + length k)) t
      = Some (if t = bsonString then Some (string_of_value v) else None)"
    using string_value_at [OF ok(2), of "?pre @ t # bytes_of k @ [0]" ?r] by simp
  have hd: "slice ?d 0 4 = Some ?pre" "index ?d 4 = Some t"
    by (simp_all add: slice_def index_def nth_append)
  have le: "LE_Uint32 ?pre = Some (of_nat (length (doc_bytes ((t, k, v) # es))))"
    using assms(2) by (simp add: LE_Uint32_def le_val_bytes doc_bytes_def Let_def elem_bytes_def)
  have "length ?d = length (doc_bytes ((t, k, v) # es)) + length r"
    unfolding d [symmetric] by simp
  then show ?thesis
    unfolding d FirstKeyValue_def
    using hd le val key_at [OF ok(1), of ?pre t v ?r] elem_type_nonzero [OF ok(2)] len
      doc_length(2) [OF assms(2)]
    by (simp add: Let_def unat_of_nat take_bit_eq_mod)
qed

text \<open>The byte scans see every operator and every empty document, at any depth.\<close>

lemma contains_in_elem:
  assumes "el \<in> set es" and "contains (elem_bytes el) sub"
  shows "contains (doc_bytes es @ r) sub"
proof -
  obtain a b where "elem_bytes el = a @ sub @ b" using assms(2) by (auto simp: contains_iff)
  moreover obtain xs ys where "es = xs @ el # ys" using assms(1) by (auto dest: split_list)
  ultimately show ?thesis
    by (simp add: contains_iff doc_bytes_def Let_def)
      (metis append.assoc)
qed

lemma contains_key: "bytes_of op = sub \<Longrightarrow> contains (elem_bytes (t, op, v)) sub"
  by (simp add: contains_iff elem_bytes_def) (metis append_Cons append_Nil)

lemma contains_value: "contains v sub \<Longrightarrow> contains (elem_bytes (t, k, v)) sub"
  by (simp add: contains_iff elem_bytes_def) (metis append.assoc append_Cons)

lemma ScanDangerousOps_iff:
  "op \<in> set (ScanDangerousOps data) \<longleftrightarrow>
     op \<in> {''$where'', ''$function'', ''$accumulator''} \<and> (\<exists>a b. data = a @ bytes_of op @ b)"
proof -
  have "map str_of (filter (\<lambda>op. contains data op) (map bytes_of xs))
      = filter (\<lambda>op. contains data (bytes_of op)) xs" for xs
    by (induction xs) simp_all
  from this [of "[''$where'', ''$function'', ''$accumulator'']"]
  have "ScanDangerousOps data
      = filter (\<lambda>op. contains data (bytes_of op)) [''$where'', ''$function'', ''$accumulator'']"
    by (simp only: ScanDangerousOps_def dangerousOps_def list.map)
  then have "set (ScanDangerousOps data)
      = {op \<in> {''$where'', ''$function'', ''$accumulator''}. contains data (bytes_of op)}"
    by (simp only: set_filter) simp
  then show ?thesis by (simp only: mem_Collect_eq contains_iff)
qed

text \<open>
  \<open>ScanDangerousOps\<close> reports exactly the operators among \<open>$where\<close>, \<open>$function\<close> and
  \<open>$accumulator\<close> whose bytes occur anywhere in the data, in a key, in a value or across them.
\<close>

theorem ScanDangerousOps_spec:
  "op \<in> set (ScanDangerousOps data) \<longleftrightarrow>
     op \<in> {''$where'', ''$function'', ''$accumulator''} \<and> (\<exists>a b. data = a @ bytes_of op @ b)"
  by (rule ScanDangerousOps_iff)

lemma contains_refl [simp]: "contains v v"
  by (cases v) simp_all

lemma HasEmptyFilter_empty_document:
  "(t, k, [5, 0, 0, 0, 0]) \<in> set es \<Longrightarrow> HasEmptyFilter (doc_bytes es @ r)"
  unfolding HasEmptyFilter_def
  by (rule contains_in_elem, assumption, rule contains_value, rule contains_refl)

lemma contains_append: "contains d sub \<Longrightarrow> contains (a @ d @ b) sub"
  by (auto simp: contains_iff) (metis append.assoc)

text \<open>
  the test for an empty filter is a byte scan, and it also fires on documents that have none: a
  document whose last element is the 32-bit integer 5 (a batch size, a limit) ends in the bytes of an
  empty document, since its terminator follows the integer.
\<close>

theorem HasEmptyFilter_false_positive:
  "HasEmptyFilter (a @ doc_bytes (es @ [(bsonInt32, k, [5, 0, 0, 0])]) @ b)"
proof -
  have "doc_bytes (es @ [(bsonInt32, k, [5, 0, 0, 0])])
      = (le_bytes 4 (length (concat (map elem_bytes (es @ [(bsonInt32, k, [5, 0, 0, 0])]))) + 5)
          @ concat (map elem_bytes es) @ bsonInt32 # bytes_of k @ [0]) @ [5, 0, 0, 0, 0] @ []"
    by (simp add: doc_bytes_def Let_def elem_bytes_def)
  then have "contains (doc_bytes (es @ [(bsonInt32, k, [5, 0, 0, 0])])) [5, 0, 0, 0, 0]"
    by (metis contains_iff)
  then show ?thesis unfolding HasEmptyFilter_def by (rule contains_append)
qed

end
