(* ===== verification/MongoOpMsg.thy ===== *)
theory MongoOpMsg
  imports MongoPacket MongoBson
begin

text \<open>
  From a packet to the command the rules see, and the reply that blocks it
  (\<open>protocol/mongodb/opmsg.go\<close>).
\<close>

record CommandInfo =
  Command :: string
  Collection :: string
  Database :: string
  DangerousOps :: "string list"
  EmptyFilter :: bool

definition ToRuleString :: "CommandInfo \<Rightarrow> string" where
  "ToRuleString c =
     ''CMD:'' @ Command c
     @ (if Database c \<noteq> [] then '' DB:'' @ Database c else [])
     @ (if Collection c \<noteq> [] then '' COLL:'' @ Collection c else [])
     @ concat (map (\<lambda>op. '' HAS:'' @ op) (DangerousOps c))
     @ (if EmptyFilter c then '' EMPTY_FILTER'' else [])"

section \<open>Extraction\<close>

definition buildInfo :: "bytes \<Rightarrow> CommandInfo option" where
  "buildInfo bsonData = do {
     (cmd, coll) \<leftarrow> FirstKeyValue bsonData;
     fields \<leftarrow> ParseTopLevel bsonData;
     let info = \<lparr>Command = cmd, Collection = coll, Database = [],
                  DangerousOps = ScanDangerousOps bsonData, EmptyFilter = False\<rparr>;
     let info = (case fields ''$db'' of Some db \<Rightarrow> info\<lparr>Database := db\<rparr> | None \<Rightarrow> info);
     Some (if cmd = ''delete'' \<or> cmd = ''update''
           then info\<lparr>EmptyFilter := HasEmptyFilter bsonData\<rparr> else info)
   }"

text \<open>
  The outer option is a panic, the inner one the results \<open>nil, false\<close>. \<open>op_msg_sections\<close> is the loop
  of \<open>parseOpMsg\<close> over the sections.
\<close>

function op_msg_sections :: "bytes \<Rightarrow> nat \<Rightarrow> CommandInfo option option" where
  "op_msg_sections payload pos =
     (if pos < length payload then do {
        kind \<leftarrow> index payload pos;
        if kind = 0 then
          (if length payload < pos + 1 + 4 then Some None
           else do {
             docLen \<leftarrow> read_len payload (pos + 1);
             if docLen < 5 \<or> length payload < pos + 1 + docLen then Some None
             else do {
               doc \<leftarrow> slice payload (pos + 1) (pos + 1 + docLen);
               info \<leftarrow> buildInfo doc;
               Some (Some info)
             }
           })
        else if kind = 1 then
          (if length payload < pos + 1 + 4 then Some None
           else do {
             seqLen \<leftarrow> read_len payload (pos + 1);
             if seqLen < 4 then Some None
             else op_msg_sections payload (pos + 1 + seqLen)
           })
        else Some None
      }
      else Some None)"
  by pat_completeness auto
termination
  by (relation "measure (\<lambda>(payload, pos). length payload - pos)") auto

declare op_msg_sections.simps [simp del]

definition parseOpMsg :: "bytes \<Rightarrow> CommandInfo option option" where
  "parseOpMsg payload = (if length payload < 5 then Some None else op_msg_sections payload 4)"

definition parseOpQuery :: "bytes \<Rightarrow> CommandInfo option option" where
  "parseOpQuery payload =
     (if length payload < 9 then Some None
      else let pos = scan_nul payload 4 in
        if length payload \<le> pos then Some None
        else let pos = pos + (1 + 8) in
          if length payload \<le> pos then Some None
          else do {
            doc \<leftarrow> slice_from payload pos;
            info \<leftarrow> buildInfo doc;
            Some (Some info)
          })"

definition ExtractCommand :: "mg_packet \<Rightarrow> CommandInfo option option" where
  "ExtractCommand pkt =
     (if \<not> IsClientMessage pkt then Some None
      else if mg_OpCode pkt = OpMsg then parseOpMsg (mg_Payload pkt)
      else if mg_OpCode pkt = OpQuery then parseOpQuery (mg_Payload pkt)
      else Some None)"

section \<open>Replies\<close>

text \<open>\<open>make([]byte, n)\<close> with an \<open>int32\<close> length panics when the length is negative.\<close>

definition make_int32 :: "32 word \<Rightarrow> bytes option" where
  "make_int32 n = (if sint n < 0 then None else Some (replicate (nat (sint n)) 0))"

definition buildErrorBSON :: "string \<Rightarrow> bytes option" where
  "buildErrorBSON errmsg = do {
     let msgBytes = bytes_of errmsg;
     let msgBSONLen = (of_nat (length msgBytes + 1) :: 32 word);
     let docSize = (of_nat (4 + 12 + (1 + 7 + 4 + length msgBytes + 1) + 10 + 1) :: 32 word);
     buf \<leftarrow> make_int32 docSize;
     let pos = 0;
     buf \<leftarrow> copy_at buf pos (LE_PutUint32 docSize); let pos = pos + 4;
     buf \<leftarrow> put buf pos 0x01; let pos = pos + 1;
     buf \<leftarrow> copy_at buf pos (bytes_of ''ok'' @ [0]); let pos = pos + 3;
     let pos = pos + 8;
     buf \<leftarrow> put buf pos 0x02; let pos = pos + 1;
     buf \<leftarrow> copy_at buf pos (bytes_of ''errmsg'' @ [0]); let pos = pos + 7;
     buf \<leftarrow> copy_at buf pos (LE_PutUint32 msgBSONLen); let pos = pos + 4;
     buf \<leftarrow> copy_at buf pos msgBytes; let pos = pos + length msgBytes;
     buf \<leftarrow> put buf pos 0; let pos = pos + 1;
     buf \<leftarrow> put buf pos 0x10; let pos = pos + 1;
     buf \<leftarrow> copy_at buf pos (bytes_of ''code'' @ [0]); let pos = pos + 5;
     buf \<leftarrow> copy_at buf pos (LE_PutUint32 2); let pos = pos + 4;
     put buf pos 0
   }"

definition BuildBlockResponse :: "32 word \<Rightarrow> string \<Rightarrow> bytes option" where
  "BuildBlockResponse responseTo message = do {
     bsonDoc \<leftarrow> buildErrorBSON message;
     let totalLen = (of_nat (16 + 4 + 1 + length bsonDoc) :: 32 word);
     raw \<leftarrow> make_int32 totalLen;
     raw \<leftarrow> copy_at raw 0 (LE_PutUint32 totalLen);
     raw \<leftarrow> copy_at raw 4 (LE_PutUint32 0);
     raw \<leftarrow> copy_at raw 8 (LE_PutUint32 responseTo);
     raw \<leftarrow> copy_at raw 12 (LE_PutUint32 OpMsg);
     copy_at raw 21 bsonDoc
   }"

section \<open>No panics\<close>

lemma buildInfo_returns: "buildInfo data \<noteq> None"
  using FirstKeyValue_returns [of data] ParseTopLevel_returns [of data]
  by (auto simp: buildInfo_def Let_def)

lemma op_msg_sections_returns: "op_msg_sections payload pos \<noteq> None"
proof (induction payload pos rule: op_msg_sections.induct)
  case (1 payload pos)
  have "buildInfo d \<noteq> None" for d by (rule buildInfo_returns)
  with 1 show ?case
    by (subst op_msg_sections.simps)
      (simp add: index_def slice_def read_len_Some Option.bind_eq_None_conv not_less del: not_None_eq)
qed

text \<open>
  C28: no client can crash the MongoDB reader. Whatever the bytes of a packet, \<open>ExtractCommand\<close> returns
  a command or the result \<open>nil, false\<close>: none of its index and slice expressions is out of range, and
  the loops over sections and elements end.
\<close>

theorem ExtractCommand_never_panics: "\<exists>r. ExtractCommand pkt = Some r"
proof -
  have "\<exists>i. buildInfo d = Some i" for d using buildInfo_returns [of d] by blast
  then have "parseOpQuery p \<noteq> None" for p
    by (auto simp: parseOpQuery_def slice_from_def Let_def Option.bind_eq_None_conv simp del: not_None_eq)
  moreover have "parseOpMsg p \<noteq> None" for p
    using op_msg_sections_returns by (simp add: parseOpMsg_def)
  ultimately show ?thesis by (simp add: ExtractCommand_def)
qed

section \<open>Extraction from a well-formed packet\<close>

text \<open>What the firewall is meant to see of the command document \<open>es\<close>.\<close>

definition command_of :: "bson_elem list \<Rightarrow> string \<times> string" where
  "command_of es = (case es of [] \<Rightarrow> ([], [])
     | (t, k, v) # _ \<Rightarrow> (k, if t = bsonString then string_of_value v else []))"

definition info_of :: "bson_elem list \<Rightarrow> CommandInfo" where
  "info_of es = \<lparr>Command = fst (command_of es), Collection = snd (command_of es),
     Database = (case string_fields es ''$db'' of Some db \<Rightarrow> db | None \<Rightarrow> []),
     DangerousOps = ScanDangerousOps (doc_bytes es),
     EmptyFilter = (fst (command_of es) \<in> {''delete'', ''update''} \<and> HasEmptyFilter (doc_bytes es))\<rparr>"

lemma buildInfo_document:
  assumes "doc_ok es" and "es \<noteq> []"
  shows "buildInfo (doc_bytes es) = Some (info_of es)"
proof -
  obtain t k v es' where es: "es = (t, k, v) # es'" using assms(2) by (cases es) auto
  then have ok: "elem_ok (t, k, v)" "length (doc_bytes ((t, k, v) # es')) < 2 ^ 32"
    using assms(1) by (auto simp: doc_ok_def)
  have "FirstKeyValue (doc_bytes es) = Some (command_of es)"
    using FirstKeyValue_document [OF ok, of "[]"] by (simp add: es command_of_def)
  moreover have "ParseTopLevel (doc_bytes es) = Some (string_fields es)"
    using ParseTopLevel_doc [OF assms(1), of "[]"] by simp
  ultimately show ?thesis
    by (auto simp: buildInfo_def info_of_def Let_def split: option.split prod.split)
qed

text \<open>A document sequence (a section of kind 1) with the given content after its length.\<close>

definition sequence_section :: "bytes \<Rightarrow> bytes" where
  "sequence_section body = 1 # le_bytes 4 (4 + length body) @ body"

lemma skip_sequence:
  assumes "length body + 4 < 2 ^ 32"
  shows "op_msg_sections (pre @ sequence_section body @ r) (length pre)
           = op_msg_sections (pre @ sequence_section body @ r) (length (pre @ sequence_section body))"
proof -
  have "read_len (pre @ sequence_section body @ r) (Suc (length pre)) = Some (4 + length body)"
    using read_len_at [of "4 + length body" "pre @ [1]" "body @ r"] assms
    by (simp add: sequence_section_def)
  then show ?thesis
    by (subst op_msg_sections.simps [of _ "length pre"])
      (simp add: sequence_section_def index_def ac_simps)
qed

lemma skip_sequences:
  assumes "\<forall>body \<in> set bs. length body + 4 < 2 ^ 32"
  shows "op_msg_sections (pre @ concat (map sequence_section bs) @ r) (length pre)
           = op_msg_sections (pre @ concat (map sequence_section bs) @ r)
               (length (pre @ concat (map sequence_section bs)))"
  using assms
proof (induction bs arbitrary: pre)
  case (Cons b bs)
  with skip_sequence [of b pre "concat (map sequence_section bs) @ r"]
    Cons.IH [of "pre @ sequence_section b"]
  show ?case by simp
qed simp

text \<open>A body section: any bytes whose first four are their length. It ends the scan.\<close>

definition body_ok :: "bytes \<Rightarrow> bool" where
  "body_ok d \<longleftrightarrow> 5 \<le> length d \<and> length d < 2 ^ 32 \<and> take 4 d = le_bytes 4 (length d)"

lemma body_bytes:
  assumes "body_ok d"
  shows "op_msg_sections (pre @ 0 # d @ r) (length pre) = map_option Some (buildInfo d)"
proof -
  have d: "5 \<le> length d" "length d < 2 ^ 32" "d = le_bytes 4 (length d) @ drop 4 d"
    using assms append_take_drop_id [of 4 d] by (simp_all add: body_ok_def)
  have "read_len (pre @ 0 # d @ r) (Suc (length pre)) = Some (length d)"
    using read_len_at [OF d(2), of "pre @ [0]" "drop 4 d @ r"] d(3) by (metis append.assoc append_Cons append_Nil length_append_singleton)
  moreover have "slice (pre @ 0 # d @ r) (Suc (length pre)) (Suc (length pre + length d)) = Some d"
    using slice_append [of "pre @ [0]" d r] by simp
  ultimately show ?thesis using d(1)
    by (subst op_msg_sections.simps) (cases "buildInfo d"; simp add: index_def)
qed

lemma doc_body_ok: "doc_ok es \<Longrightarrow> body_ok (doc_bytes es)"
  by (simp add: body_ok_def doc_ok_def doc_bytes_def Let_def add.commute)

lemma parseOpMsg_body:
  assumes "length flags = 4" and "list_all (\<lambda>b. length b + 4 < 2 ^ 32) bs" and "body_ok d"
  shows "parseOpMsg (flags @ concat (map sequence_section bs) @ 0 # d @ r) = map_option Some (buildInfo d)"
  using skip_sequences [of bs flags "0 # d @ r"] body_bytes [OF assms(3), of "flags @ concat (map sequence_section bs)" r]
    assms
  by (simp add: parseOpMsg_def list_all_iff)

lemma parseOpMsg_document:
  assumes "length flags = 4" and "\<forall>body \<in> set bs. length body + 4 < 2 ^ 32"
    and "doc_ok es" and "es \<noteq> []"
  shows "parseOpMsg (flags @ concat (map sequence_section bs) @ 0 # doc_bytes es @ r)
           = Some (Some (info_of es))"
  using parseOpMsg_body [OF assms(1) _ doc_body_ok [OF assms(3)]] buildInfo_document [OF assms(3,4)] assms(2)
  by (simp add: list_all_iff)

lemma parseOpQuery_document:
  assumes "length flags = 4" and "no_nul name" and "length opts = 8" and "doc_ok es" and "es \<noteq> []"
  shows "parseOpQuery (flags @ bytes_of name @ 0 # opts @ doc_bytes es) = Some (Some (info_of es))"
proof -
  let ?p = "flags @ bytes_of name @ 0 # opts @ doc_bytes es"
  have "scan_nul ?p 4 = 4 + length name"
    using scan_nul_field [of "bytes_of name" flags "opts @ doc_bytes es"] assms(1,2)
    by (simp add: no_nul_bytes)
  moreover have "slice_from ?p (length name + 13) = Some (doc_bytes es)"
    using assms(1,3) by (simp add: slice_from_def)
  ultimately show ?thesis
    using assms doc_length(2) [of es] buildInfo_document [OF assms(4,5)]
    by (auto simp: parseOpQuery_def Let_def doc_ok_def ac_simps)
qed

text \<open>
  C11: from a well-formed client packet \<open>ExtractCommand\<close> reads the command the client sent. For an
  \<open>OP_MSG\<close>, with any flags, any document sequences before the body and anything after it, and for
  the legacy \<open>OP_QUERY\<close> with any collection name, the result is the command name and its collection
  (the first element), the database (\<open>$db\<close>), the dangerous operators in the body and, for delete and
  update, the empty-filter flag.
\<close>

theorem ExtractCommand_document:
  assumes "mg_ResponseTo pkt = 0" and "doc_ok es" and "es \<noteq> []" and "length flags = 4"
    and "(mg_OpCode pkt = OpMsg
           \<and> (\<forall>body \<in> set bs. length body + 4 < 2 ^ 32)
           \<and> mg_Payload pkt = flags @ concat (map sequence_section bs) @ 0 # doc_bytes es @ r)
       \<or> (mg_OpCode pkt = OpQuery \<and> no_nul name \<and> length opts = 8
           \<and> mg_Payload pkt = flags @ bytes_of name @ 0 # opts @ doc_bytes es)"
  shows "ExtractCommand pkt = Some (Some (info_of es))"
  using assms(5)
proof
  assume "mg_OpCode pkt = OpMsg \<and> (\<forall>body \<in> set bs. length body + 4 < 2 ^ 32)
      \<and> mg_Payload pkt = flags @ concat (map sequence_section bs) @ 0 # doc_bytes es @ r"
  then show ?thesis
    using assms(1) parseOpMsg_document [OF assms(4) _ assms(2,3)]
    by (simp add: ExtractCommand_def IsClientMessage_def)
next
  assume "mg_OpCode pkt = OpQuery \<and> no_nul name \<and> length opts = 8
      \<and> mg_Payload pkt = flags @ bytes_of name @ 0 # opts @ doc_bytes es"
  then show ?thesis
    using assms(1) parseOpQuery_document [OF assms(4) _ _ assms(2,3)]
    by (simp add: ExtractCommand_def IsClientMessage_def OpQuery_def OpMsg_def)
qed

definition drop_orders :: "bson_elem list" where
  "drop_orders = [string_elem ''drop'' ''orders'', string_elem ''$db'' ''shop'']"

lemma drop_orders_ok: "doc_ok drop_orders"
proof -
  have "no_nul ''drop''" "no_nul ''$db''" by code_simp+
  then show ?thesis
    by (simp add: doc_ok_def drop_orders_def)
      (simp add: doc_bytes_def string_elem_def elem_bytes_def)
qed

theorem ExtractCommand_document_witness:
  "ExtractCommand \<lparr>mg_MessageLength = 0, mg_RequestID = 1, mg_ResponseTo = 0, mg_OpCode = OpMsg,
       mg_Payload = [0, 0, 0, 0] @ concat (map sequence_section [[9, 9]]) @ 0 # doc_bytes drop_orders @ [],
       mg_Raw = []\<rparr> = Some (Some (info_of drop_orders))
     \<and> Command (info_of drop_orders) = ''drop'' \<and> Collection (info_of drop_orders) = ''orders''
     \<and> Database (info_of drop_orders) = ''shop''"
proof -
  have "Command (info_of drop_orders) = ''drop'' \<and> Collection (info_of drop_orders) = ''orders''
     \<and> Database (info_of drop_orders) = ''shop''"
    by (simp add: info_of_def command_of_def drop_orders_def string_fields_def)
      (simp add: string_elem_def string_of_value_def butlast_append)
  moreover have "drop_orders \<noteq> []" by (simp add: drop_orders_def)
  ultimately show ?thesis
    using ExtractCommand_document [of "\<lparr>mg_MessageLength = 0, mg_RequestID = 1, mg_ResponseTo = 0,
        mg_OpCode = OpMsg, mg_Payload = [0, 0, 0, 0] @ concat (map sequence_section [[9, 9]])
          @ 0 # doc_bytes drop_orders @ [], mg_Raw = []\<rparr>" drop_orders "[0, 0, 0, 0]" "[[9, 9]]" "[]"]
      drop_orders_ok by simp
qed

section \<open>What document sequences hide\<close>

text \<open>A delete command whose statements travel in a document sequence, as drivers send it.\<close>

definition delete_users :: "bson_elem list" where
  "delete_users = [string_elem ''delete'' ''users'', string_elem ''$db'' ''shop'']"

lemma delete_users_ok: "doc_ok delete_users"
proof -
  have "no_nul ''delete''" "no_nul ''$db''" by code_simp+
  then show ?thesis
    by (simp add: doc_ok_def delete_users_def)
      (simp add: doc_bytes_def string_elem_def elem_bytes_def)
qed

text \<open>The sequence \<open>deletes\<close> with one statement whose filter is empty.\<close>

definition delete_all :: bytes where
  "delete_all = bytes_of ''deletes'' @ [0] @ doc_bytes [(bsonDocument, ''q'', [5, 0, 0, 0, 0])]"

text \<open>
  C39: what travels in document sequences is never looked at. For an \<open>OP_MSG\<close> with any body bytes, the
  document sequences in front of the body and all the bytes behind it can be replaced by any others, or left
  out, and \<open>ExtractCommand\<close> returns the same command: it reports a dangerous operator or an empty filter
  only if the body's own bytes have one. Drivers send the statements of a delete or an update, with
  their filters, in such sequences.
\<close>

theorem document_sequences_unseen:
  assumes "mg_OpCode pkt = OpMsg" and "mg_ResponseTo pkt = 0" and "length flags = 4" and "body_ok body"
    and "list_all (\<lambda>b. length b + 4 < 2 ^ 32) bs" and "list_all (\<lambda>b. length b + 4 < 2 ^ 32) bs'"
  shows "\<exists>info. ExtractCommand (pkt\<lparr>mg_Payload := flags @ concat (map sequence_section bs) @ 0 # body @ r\<rparr>)
           = Some (Some info)
     \<and> ExtractCommand (pkt\<lparr>mg_Payload := flags @ concat (map sequence_section bs') @ 0 # body @ r'\<rparr>)
           = Some (Some info)
     \<and> DangerousOps info = ScanDangerousOps body
     \<and> EmptyFilter info = (Command info \<in> {''delete'', ''update''} \<and> HasEmptyFilter body)"
proof -
  obtain info where info: "buildInfo body = Some info" using buildInfo_returns [of body] by blast
  have "ExtractCommand (pkt\<lparr>mg_Payload := flags @ concat (map sequence_section cs) @ 0 # body @ t\<rparr>) = Some (Some info)"
    if "list_all (\<lambda>b. length b + 4 < 2 ^ 32) cs" for cs t
    using parseOpMsg_body [OF assms(3) that assms(4), of t] info assms(1,2)
    by (simp add: ExtractCommand_def IsClientMessage_def)
  from this [OF assms(5)] this [OF assms(6)] info show ?thesis
    by (auto simp: buildInfo_def Let_def bind_eq_Some_conv split: option.splits prod.splits if_splits)
qed

theorem document_sequences_unseen_witness:
  "\<exists>info. ExtractCommand \<lparr>mg_MessageLength = 0, mg_RequestID = 1, mg_ResponseTo = 0, mg_OpCode = OpMsg,
         mg_Payload = [0, 0, 0, 0] @ concat (map sequence_section [delete_all]) @ 0 # doc_bytes delete_users @ [],
         mg_Raw = []\<rparr> = Some (Some info)
     \<and> ExtractCommand \<lparr>mg_MessageLength = 0, mg_RequestID = 1, mg_ResponseTo = 0, mg_OpCode = OpMsg,
         mg_Payload = [0, 0, 0, 0] @ concat (map sequence_section []) @ 0 # doc_bytes delete_users @ [],
         mg_Raw = []\<rparr> = Some (Some info)
     \<and> \<not> EmptyFilter info \<and> HasEmptyFilter delete_all"
proof -
  let ?pkt = "\<lparr>mg_MessageLength = 0, mg_RequestID = 1, mg_ResponseTo = 0, mg_OpCode = OpMsg, mg_Payload = [], mg_Raw = []\<rparr>"
  have l: "list_all (\<lambda>b. length b + 4 < 2 ^ 32) [delete_all]"
    by (simp add: delete_all_def doc_bytes_def elem_bytes_def)
  have "HasEmptyFilter delete_all" "\<not> HasEmptyFilter (doc_bytes delete_users)" by code_simp+
  with document_sequences_unseen [of ?pkt "[0, 0, 0, 0]" "doc_bytes delete_users" "[delete_all]" "[]" "[]" "[]"]
    l doc_body_ok [OF delete_users_ok] show ?thesis by auto
qed

section \<open>The blocking reply\<close>

definition error_doc :: "string \<Rightarrow> bson_elem list" where
  "error_doc m = [(bsonDouble, ''ok'', replicate 8 0), string_elem ''errmsg'' m,
     (bsonInt32, ''code'', [2, 0, 0, 0])]"

lemma put_skip:
  assumes "length w \<le> i" and "i < length w + k"
  shows "put (filled w k) i b
     = Some (filled (w @ replicate (i - length w) 0 @ [b]) (length w + k - i - 1))"
proof -
  obtain j where j: "i = length w + j" using assms(1) by (metis le_Suc_ex)
  obtain l where "k = j + Suc l" using assms(2) j by (metis add_less_cancel_left less_iff_Suc_add add_Suc_right)
  moreover have "(replicate (j + Suc l) 0)[j := b] = replicate j 0 @ b # replicate l 0"
    unfolding replicate_add by (simp add: list_update_append)
  ultimately show ?thesis using j
    by (simp add: put_def filled_def list_update_append del: replicate_Suc add_Suc_right)
qed

lemma copy_skip:
  assumes "length w \<le> i" and "i + length src \<le> length w + k"
  shows "copy_at (filled w k) i src
     = Some (filled (w @ replicate (i - length w) 0 @ src) (length w + k - i - length src))"
  using assms by (simp add: copy_at_def filled_def min_absorb1)

lemma make_int32_filled: "n < 2 ^ 31 \<Longrightarrow> make_int32 (of_nat n) = Some (filled [] n)"
  by (simp add: make_int32_def sint_small_word32 make_filled)

lemma doc_bytes_error:
  "doc_bytes (error_doc m) = le_bytes 4 (40 + length m) @ 1 # bytes_of ''ok'' @ 0 # replicate 8 0
     @ 2 # bytes_of ''errmsg'' @ 0 # le_bytes 4 (Suc (length m)) @ bytes_of m @ 0
     # 0x10 # bytes_of ''code'' @ [0, 2, 0, 0, 0, 0]"
  by (simp add: doc_bytes_def error_doc_def elem_bytes_def string_elem_def bson_types Let_def)

lemma buildErrorBSON_eq:
  assumes "length m + 40 < 2 ^ 31"
  shows "buildErrorBSON m = Some (doc_bytes (error_doc m))"
proof -
  let ?n = "length m"
  let ?size = "of_nat (40 + ?n) :: 32 word"
  have "buildErrorBSON m = do {
     buf \<leftarrow> make_int32 ?size;
     buf \<leftarrow> copy_at buf 0 (LE_PutUint32 ?size);
     buf \<leftarrow> put buf 4 0x01;
     buf \<leftarrow> copy_at buf 5 (bytes_of ''ok'' @ [0]);
     buf \<leftarrow> put buf 16 0x02;
     buf \<leftarrow> copy_at buf 17 (bytes_of ''errmsg'' @ [0]);
     buf \<leftarrow> copy_at buf 24 (LE_PutUint32 (of_nat (Suc ?n)));
     buf \<leftarrow> copy_at buf 28 (bytes_of m);
     buf \<leftarrow> put buf (28 + ?n) 0;
     buf \<leftarrow> put buf (29 + ?n) 0x10;
     buf \<leftarrow> copy_at buf (30 + ?n) (bytes_of ''code'' @ [0]);
     buf \<leftarrow> copy_at buf (35 + ?n) (LE_PutUint32 2);
     put buf (39 + ?n) 0 }"
    by (simp add: buildErrorBSON_def Let_def ac_simps)
  moreover have "make_int32 ?size = Some (filled [] (40 + ?n))"
    using assms by (intro make_int32_filled) simp
  moreover have "LE_PutUint32 ?size = le_bytes 4 (40 + ?n)"
    "LE_PutUint32 (of_nat (Suc ?n)) = le_bytes 4 (Suc ?n)"
    using assms by (simp_all add: LE_PutUint32_def unat_of_nat take_bit_eq_mod del: of_nat_add of_nat_Suc)
  moreover have "LE_PutUint32 2 = [2, 0, 0, 0]" by code_simp
  moreover have "copy_at (filled [] (40 + ?n)) 0 (le_bytes 4 (40 + ?n))
      = Some (filled (le_bytes 4 (40 + ?n)) (36 + ?n))"
    by (simp add: copy_filled)
  ultimately show ?thesis
    unfolding doc_bytes_error
    by (simp add: put_filled copy_filled put_skip [of _ 16] filled_0)
qed

lemma length_error_doc: "length (doc_bytes (error_doc m)) = 40 + length m"
  by (simp add: doc_bytes_error)

lemma BuildBlockResponse_frame:
  assumes "61 + length m \<le> mg_max"
  shows "BuildBlockResponse resp m
     = Some (mg_frame 0 resp OpMsg ([0, 0, 0, 0] @ 0 # doc_bytes (error_doc m)))"
proof -
  let ?d = "doc_bytes (error_doc m)"
  have n: "61 + length m < 2 ^ 31" using assms by (simp add: mg_max_def)
  let ?len = "of_nat (61 + length m) :: 32 word"
  have "buildErrorBSON m = Some ?d" using n by (intro buildErrorBSON_eq) simp
  then have "BuildBlockResponse resp m = do {
     raw \<leftarrow> make_int32 ?len;
     raw \<leftarrow> copy_at raw 0 (LE_PutUint32 ?len);
     raw \<leftarrow> copy_at raw 4 (LE_PutUint32 0);
     raw \<leftarrow> copy_at raw 8 (LE_PutUint32 resp);
     raw \<leftarrow> copy_at raw 12 (LE_PutUint32 OpMsg);
     copy_at raw 21 ?d }"
    by (simp add: BuildBlockResponse_def length_error_doc Let_def)
  moreover have "make_int32 ?len = Some (filled [] (61 + length m))"
    using n by (rule make_int32_filled)
  moreover have "replicate 5 0 = [0, 0, 0, 0, 0 :: byte]" by code_simp
  ultimately show ?thesis
    by (simp add: copy_filled copy_skip [of _ 21] length_error_doc filled_0 mg_frame_def mg_header_def)
qed

lemma error_doc_ok:
  assumes "61 + length m \<le> mg_max"
  shows "doc_ok (error_doc m)"
proof -
  have "no_nul ''ok''" "no_nul ''errmsg''" "no_nul ''code''" by code_simp+
  moreover have "bson_value bsonDouble (replicate 8 0)" "bson_value bsonInt32 [2, 0, 0, 0]"
    by (simp_all add: bson_value.simps bson_types)
  ultimately show ?thesis
    using assms length_error_doc [of m]
    by (simp add: doc_ok_def mg_max_def)
      (simp add: error_doc_def elem_ok_def [of "(_, _, _)"])
qed

lemma error_doc_fields: "string_fields (error_doc m) = Map.empty(''errmsg'' \<mapsto> m)"
  by (simp add: string_fields_def error_doc_def add_field_elem bson_types)

text \<open>
  C13: the blocking reply is a well-formed \<open>OP_MSG\<close>: for every message of up to 48 MiB less the
  61 bytes of framing, building it never panics, and a client reads it off any connection as one packet
  that answers the blocked request, whose body is the document \<open>{ok: 0.0, errmsg: m, code: 2}\<close>; parsing
  that document returns the message.
\<close>

theorem block_response_read:
  assumes "conn_ok c" and "61 + length m \<le> 48 * 1024 * 1024"
    and "BuildBlockResponse resp m = Some raw" and "conn_bytes c = raw @ rest"
  shows "\<exists>pkt c'. mongo_ReadPacket conn_read c = Some (Inr pkt, c') \<and> conn_bytes c' = rest
       \<and> mg_Raw pkt = raw \<and> mg_ResponseTo pkt = resp \<and> mg_OpCode pkt = OpMsg
       \<and> mg_Payload pkt = [0, 0, 0, 0, 0] @ doc_bytes (error_doc m)
       \<and> ParseTopLevel (drop 5 (mg_Payload pkt)) = Some (Map.empty(''errmsg'' \<mapsto> m))"
proof -
  have m: "61 + length m \<le> mg_max" using assms(2) by (simp add: mg_max_def)
  let ?p = "[0, 0, 0, 0] @ 0 # doc_bytes (error_doc m)"
  have raw: "raw = mg_frame 0 resp OpMsg ?p"
    using assms(3) by (simp add: BuildBlockResponse_frame [OF m])
  have "16 + length ?p \<le> mg_max" using m by (simp add: length_error_doc)
  from conn.mongo_ReadPacket_reader_frame [OF assms(1) assms(4) [unfolded raw] this]
  obtain c' where "mongo_ReadPacket conn_read c = Some (Inr \<lparr>mg_MessageLength = of_nat (16 + length ?p),
      mg_RequestID = 0, mg_ResponseTo = resp, mg_OpCode = OpMsg, mg_Payload = ?p, mg_Raw = raw\<rparr>, c')"
    "conn_bytes c' = rest" by (auto simp: raw)
  moreover have "ParseTopLevel (doc_bytes (error_doc m)) = Some (Map.empty(''errmsg'' \<mapsto> m))"
    using ParseTopLevel_doc [OF error_doc_ok [OF m], of "[]"] by (simp add: error_doc_fields)
  ultimately show ?thesis by simp
qed

theorem block_response_read_witness:
  "\<exists>raw. BuildBlockResponse 7 ''no'' = Some raw
     \<and> (\<exists>pkt c'. mongo_ReadPacket conn_read \<lparr>segments = [raw, [9]], close_err = EOF\<rparr> = Some (Inr pkt, c')
         \<and> conn_bytes c' = [9] \<and> mg_Raw pkt = raw \<and> mg_ResponseTo pkt = 7 \<and> mg_OpCode pkt = OpMsg
         \<and> mg_Payload pkt = [0, 0, 0, 0, 0] @ doc_bytes (error_doc ''no'')
         \<and> ParseTopLevel (drop 5 (mg_Payload pkt)) = Some (Map.empty(''errmsg'' \<mapsto> ''no'')))"
proof -
  have "61 + length ''no'' \<le> mg_max" by (simp add: mg_max_def)
  from BuildBlockResponse_frame [OF this, of 7]
  obtain raw where raw: "BuildBlockResponse 7 ''no'' = Some raw" "raw \<noteq> []"
    by (auto simp: mg_frame_def mg_header_def LE_PutUint32_def)
  let ?c = "\<lparr>segments = [raw, [9]], close_err = EOF\<rparr>"
  have "conn_ok ?c" "conn_bytes ?c = raw @ [9]"
    using raw(2) by (simp_all add: conn_ok_def conn_bytes_def)
  from block_response_read [OF this(1) _ raw(1) this(2)] raw(1) show ?thesis by auto
qed

end
