(* ===== verification/MongoRules.thy ===== *)
theory MongoRules
  imports DefaultRules MongoOpMsg
begin

text \<open>
  The MongoDB rules (\<open>engine/mongodb_rules.go\<close>) on the rule strings of extracted commands
  (\<open>protocol/mongodb/opmsg.go\<close>): which commands they block, from the packet on.
\<close>

section \<open>The compiled patterns\<close>

lemma mongo_patterns:
  "Compile (raw ''HAS:`$where'') = Some (word False ''HAS:$where'')"
  "Compile (raw ''HAS:`$(function|accumulator)'')
     = Some (word_then False ''HAS:$'' (one_of False [''function'', ''accumulator'']))"
  "Compile (raw ''(?i)^CMD:drop`b'') = Some (Concat BeginText (word_then True ''CMD:drop'' WordBoundary))"
  "Compile (raw ''(?i)^CMD:dropDatabase`b'')
     = Some (Concat BeginText (word_then True ''CMD:dropDatabase'' WordBoundary))"
  "Compile (raw ''`bEMPTY_FILTER`b'')
     = Some (Concat WordBoundary (word_then False ''EMPTY_FILTER'' WordBoundary))"
  "Compile (raw ''(?i)^CMD:(createUser|dropUser|updateUser)`b'')
     = Some (Concat BeginText (word_then True ''CMD:''
         (Concat (one_of True [''createUser'', ''dropUser'', ''updateUser'']) WordBoundary)))"
  "Compile (raw ''(?i)^CMD:(grantRolesToUser|revokeRolesFromUser)`b'')
     = Some (Concat BeginText (word_then True ''CMD:''
         (Concat (one_of True [''grantRolesToUser'', ''revokeRolesFromUser'']) WordBoundary)))"
  by code_simp+

section \<open>The parts of a rule string\<close>

definition place_part :: "CommandInfo \<Rightarrow> string" where
  "place_part c = (if Database c \<noteq> [] then '' DB:'' @ Database c else [])
     @ (if Collection c \<noteq> [] then '' COLL:'' @ Collection c else [])"

definition ops_part :: "string list \<Rightarrow> string" where
  "ops_part ops = concat (map (\<lambda>op. '' HAS:'' @ op) ops)"

definition filter_part :: "CommandInfo \<Rightarrow> string" where
  "filter_part c = (if EmptyFilter c then '' EMPTY_FILTER'' else [])"

lemma rule_string_parts:
  "ToRuleString c = ''CMD:'' @ Command c @ place_part c @ ops_part (DangerousOps c) @ filter_part c"
  by (simp add: ToRuleString_def place_part_def ops_part_def filter_part_def)

text \<open>What follows the command in a rule string is empty or starts with a blank.\<close>

lemma rule_tail_edge: "edge_after (place_part c @ ops_part (DangerousOps c) @ filter_part c)"
proof -
  have "x = [] \<or> (\<exists>t. x = CHR '' '' # t)"
    if "x = place_part c @ ops_part (DangerousOps c) @ filter_part c" for x
    unfolding that
    by (cases "DangerousOps c") (auto simp: place_part_def ops_part_def filter_part_def)
  moreover have "rune_of (CHR '' '') < 128 \<and> \<not> IsWordChar (rune_of (CHR '' ''))" by code_simp
  ultimately show ?thesis unfolding edge_after_def by (metis list.sel(1))
qed

lemma rule_string_op:
  assumes "op \<in> set (DangerousOps c)"
  shows "\<exists>pre post. ToRuleString c = pre @ (''HAS:'' @ op) @ post"
proof -
  obtain as bs where "DangerousOps c = as @ op # bs" using assms by (auto dest: split_list)
  then have "ToRuleString c = (''CMD:'' @ Command c @ place_part c @ ops_part as @ '' '')
      @ (''HAS:'' @ op) @ (ops_part bs @ filter_part c)"
    by (simp add: rule_string_parts ops_part_def)
  then show ?thesis by blast
qed

lemma rule_string_empty_filter:
  assumes "EmptyFilter c"
  shows "ToRuleString c = (''CMD:'' @ Command c @ place_part c @ ops_part (DangerousOps c) @ '' '')
     @ ''EMPTY_FILTER'' @ []"
  using assms by (simp add: rule_string_parts filter_part_def)

section \<open>What each pattern matches\<close>

lemma op_pattern_matches:
  "w \<noteq> [] \<Longrightarrow> ascii w \<Longrightarrow> MatchString (word False w) (pre @ w @ post)"
  by (rule MatchStringI) (auto intro: match_word_exact)

lemma js_pattern_matches:
  assumes "ascii h" and "w \<in> set ws" and "ascii w" and "w \<noteq> []"
  shows "MatchString (word_then False h (one_of False ws)) (pre @ (h @ w) @ post)"
proof -
  let ?p = "last_rune None (runes (bytes_of pre))" and ?q = "runes (bytes_of post)"
  have "match_re (one_of False ws) (last_rune ?p (tokens h), tokens w @ ?q)
      (last_rune (last_rune ?p (tokens h)) (tokens w), ?q)"
    using assms by (intro match_one_of_exact)
  from match_word_then_exact [OF this] show ?thesis
    using assms by (intro MatchStringI) (auto simp only: tokens_simps append_assoc ascii_simps)
qed

lemma filter_pattern_matches:
  assumes "edge_before pre" and "word_text w" and "ascii w" and "edge_after post"
  shows "MatchString (Concat WordBoundary (word_then False w WordBoundary)) (pre @ w @ post)"
proof -
  let ?p = "last_rune None (runes (bytes_of pre))" and ?q = "runes (bytes_of post)"
  have "match_re WordBoundary (last_rune ?p (tokens w), ?q) (last_rune ?p (tokens w), ?q)"
    using word_text_edges(2) [OF assms(2)] not_word_after [OF assms(4)] by (intro edge_boundary) simp
  note e = match_word_then_exact [OF this]
  have "match_re WordBoundary (?p, tokens w @ ?q) (?p, tokens w @ ?q)"
    using not_word_before [OF assms(1)] word_text_edges(1) [OF assms(2)] by (intro edge_boundary) simp
  from match_re.concat [OF this e] assms(2,3) show ?thesis
    by (intro MatchStringI) (auto simp: word_text_def)
qed

lemma command_pattern_matches:
  assumes "same_word cmd w" and "word_text w" and "ascii w" and "edge_after post"
  shows "MatchString (Concat BeginText (word_then True (''CMD:'' @ w) WordBoundary)) (''CMD:'' @ cmd @ post)"
    and "w \<in> set ws \<Longrightarrow> MatchString (Concat BeginText (word_then True ''CMD:''
           (Concat (one_of True ws) WordBoundary))) (''CMD:'' @ cmd @ post)"
proof -
  let ?q = "runes (bytes_of post)"
  have C: "ascii ''CMD:''" "same_word ''CMD:'' ''CMD:''" by code_simp+
  have cmd: "word_text cmd" "ascii cmd" using assms(1-3) same_word_text same_word_ascii by blast+
  have whole: "ascii (''CMD:'' @ cmd)" "''CMD:'' @ cmd \<noteq> []" using C cmd by simp_all
  have same: "same_word (''CMD:'' @ cmd) (''CMD:'' @ w)" using assms(1) by (simp add: same_word_def)
  let ?e = "last_rune (last_rune None (tokens ''CMD:'')) (tokens cmd)"
  have wb: "match_re WordBoundary (?e, ?q) (?e, ?q)"
    using word_text_edges(2) [OF cmd(1)] not_word_after [OF assms(4)] by (intro edge_boundary) simp
  have bt: "match_re BeginText (None, ts) (None, ts)" for ts by simp
  have "match_re (word_then True (''CMD:'' @ w) WordBoundary) (None, tokens (''CMD:'' @ cmd) @ ?q) (?e, ?q)"
    using wb C assms(3) by (intro match_word_then same) (simp_all only: tokens_simps last_rune_append ascii_simps)
  from MatchString_prefixI [OF whole match_re.concat [OF bt this]]
  show "MatchString (Concat BeginText (word_then True (''CMD:'' @ w) WordBoundary)) (''CMD:'' @ cmd @ post)"
    by (simp only: append_assoc)
  assume w: "w \<in> set ws"
  have "match_re (one_of True ws) (last_rune None (tokens ''CMD:''), tokens cmd @ ?q) (?e, ?q)"
    using assms(1-3) w by (intro match_one_of) (auto simp: word_text_def)
  from match_word_then [OF C(2,1) match_re.concat [OF this wb]]
  have "match_re (word_then True ''CMD:'' (Concat (one_of True ws) WordBoundary))
      (None, tokens (''CMD:'' @ cmd) @ ?q) (?e, ?q)"
    by (simp only: tokens_simps append_assoc)
  from MatchString_prefixI [OF whole match_re.concat [OF bt this]]
  show "MatchString (Concat BeginText (word_then True ''CMD:'' (Concat (one_of True ws) WordBoundary)))
      (''CMD:'' @ cmd @ post)"
    by (simp only: append_assoc)
qed

section \<open>Blocked commands\<close>

definition blocked_commands :: "string list" where
  "blocked_commands = [''drop'', ''dropDatabase'', ''createUser'', ''dropUser'', ''updateUser'',
     ''grantRolesToUser'', ''revokeRolesFromUser'']"

definition js_operators :: "string list" where
  "js_operators = [''$where'', ''$function'', ''$accumulator'']"

definition harmful :: "CommandInfo \<Rightarrow> bool" where
  "harmful c \<longleftrightarrow> list_ex (same_word (Command c)) blocked_commands
     \<or> list_ex (\<lambda>op. op \<in> set js_operators) (DangerousOps c)
     \<or> EmptyFilter c"

abbreviation mongo_blocks :: "(rune \<Rightarrow> rune) \<Rightarrow> string \<Rightarrow> bool" where
  "mongo_blocks fold_rune text \<equiv> (\<exists>rs. DefaultMongoDBRules = Some rs \<and> (\<forall>user db.
     d_Action (Decide fold_rune (New rs :: unit engine) text user db) = ActionBlock))"

lemmas mongo_rule_blocks =
  rule_set_blocks [OF rule_sets_compile(3) DefaultMongoDBRules_def, where 'w = unit]

lemma words_fit:
  "list_all (\<lambda>w. word_text w \<and> ascii w) (blocked_commands @ [''EMPTY_FILTER''])"
  by code_simp

lemma blocks_command:
  assumes "list_ex (same_word (Command c)) blocked_commands"
  shows "mongo_blocks fold_rune (ToRuleString c)"
proof -
  let ?post = "place_part c @ ops_part (DangerousOps c) @ filter_part c"
  obtain w where w: "w \<in> set blocked_commands" "same_word (Command c) w"
    using assms by (auto simp: list_ex_iff)
  then have t: "word_text w" "ascii w" using words_fit by (auto simp: list_all_iff)
  note m = command_pattern_matches [OF w(2) t rule_tail_edge [of c]]
  have "w = ''drop'' \<or> w = ''dropDatabase'' \<or> w \<in> set [''createUser'', ''dropUser'', ''updateUser'']
      \<or> w \<in> set [''grantRolesToUser'', ''revokeRolesFromUser'']"
    using w(1) by (auto simp: blocked_commands_def)
  then show ?thesis unfolding rule_string_parts
  proof (elim disjE)
    assume "w = ''drop''"
    with m(1) show "mongo_blocks fold_rune (''CMD:'' @ Command c @ ?post)"
      by (intro mongo_rule_blocks [OF _ mongo_patterns(3), of "''ddl-drop-collection''"]) simp_all
  next
    assume "w = ''dropDatabase''"
    with m(1) show "mongo_blocks fold_rune (''CMD:'' @ Command c @ ?post)"
      by (intro mongo_rule_blocks [OF _ mongo_patterns(4), of "''ddl-drop-database''"]) simp_all
  next
    assume "w \<in> set [''createUser'', ''dropUser'', ''updateUser'']"
    from m(2) [OF this] show "mongo_blocks fold_rune (''CMD:'' @ Command c @ ?post)"
      by (intro mongo_rule_blocks [OF _ mongo_patterns(6), of "''privesc-user-mgmt''"]) simp_all
  next
    assume "w \<in> set [''grantRolesToUser'', ''revokeRolesFromUser'']"
    from m(2) [OF this] show "mongo_blocks fold_rune (''CMD:'' @ Command c @ ?post)"
      by (intro mongo_rule_blocks [OF _ mongo_patterns(7), of "''privesc-grant-roles''"]) simp_all
  qed
qed

lemma blocks_operator:
  assumes "op \<in> set (DangerousOps c)" and "op \<in> set js_operators"
  shows "mongo_blocks fold_rune (ToRuleString c)"
proof -
  obtain pre post where t: "ToRuleString c = pre @ (''HAS:'' @ op) @ post"
    using rule_string_op [OF assms(1)] by blast
  have a: "ascii (''HAS:$where'')" "ascii ''HAS:$''" "ascii ''function''" "ascii ''accumulator''"
    by code_simp+
  consider "op = ''$where''" | w where "op = CHR ''$'' # w" "w \<in> set [''function'', ''accumulator'']"
    using assms(2) by (auto simp: js_operators_def)
  then show ?thesis
  proof cases
    case 1
    with t have "MatchString (word False ''HAS:$where'') (ToRuleString c)"
      using op_pattern_matches [OF _ a(1), of pre post] by simp
    then show ?thesis
      by (intro mongo_rule_blocks [OF _ mongo_patterns(1), of "''nosqli-where-js''"]) simp_all
  next
    case 2
    with t a have "MatchString (word_then False ''HAS:$'' (one_of False [''function'', ''accumulator'']))
        (ToRuleString c)"
      using js_pattern_matches [OF a(2) 2(2), of pre post] by auto
    then show ?thesis
      by (intro mongo_rule_blocks [OF _ mongo_patterns(2), of "''nosqli-function-js''"]) simp_all
  qed
qed

lemma blocks_empty_filter:
  assumes "EmptyFilter c"
  shows "mongo_blocks fold_rune (ToRuleString c)"
proof -
  let ?pre = "''CMD:'' @ Command c @ place_part c @ ops_part (DangerousOps c)"
  have "edge_before (?pre @ '' '')"
  proof -
    have "rune_of CHR '' '' < 128 \<and> \<not> IsWordChar (rune_of CHR '' '')" by code_simp
    moreover have "last (?pre @ '' '') = CHR '' ''" by (simp only: last_snoc)
    ultimately show ?thesis by (simp only: edge_before_def) simp
  qed
  moreover have "word_text ''EMPTY_FILTER''" "ascii ''EMPTY_FILTER''" "edge_after []"
    using words_fit by (simp_all add: edge_after_def)
  ultimately have "MatchString (Concat WordBoundary (word_then False ''EMPTY_FILTER'' WordBoundary))
      ((?pre @ '' '') @ ''EMPTY_FILTER'' @ [])"
    by (rule filter_pattern_matches)
  then have "MatchString (Concat WordBoundary (word_then False ''EMPTY_FILTER'' WordBoundary)) (ToRuleString c)"
    unfolding rule_string_empty_filter [OF assms] by (simp only: append_assoc)
  then show ?thesis
    by (intro mongo_rule_blocks [OF _ mongo_patterns(5), of "''mass-operation-no-filter''"]) simp_all
qed

lemma blocks_harmful:
  assumes "harmful c"
  shows "mongo_blocks fold_rune (ToRuleString c)"
  using assms unfolding harmful_def
proof (elim disjE)
  assume "list_ex (\<lambda>op. op \<in> set js_operators) (DangerousOps c)"
  then obtain op where "op \<in> set (DangerousOps c)" "op \<in> set js_operators"
    unfolding list_ex_iff by blast
  then show "mongo_blocks fold_rune (ToRuleString c)" by (rule blocks_operator)
qed (erule blocks_command blocks_empty_filter)+

text \<open>
  the MongoDB rules compile, and every command with a harmful trait is blocked: one of the dropping or
  privilege commands in any case, a JavaScript operator, or an empty filter; whatever the database,
  the collection and the other fields say.
\<close>

theorem harmful_commands_blocked:
  assumes "harmful c"
  shows "\<exists>rs. DefaultMongoDBRules = Some rs \<and> (\<forall>user db.
           d_Action (Decide fold_rune (New rs :: unit engine) (ToRuleString c) user db) = ActionBlock)"
  using assms by (rule blocks_harmful)

theorem harmful_commands_blocked_witness:
  "\<exists>rs. DefaultMongoDBRules = Some rs \<and> d_Action (Decide ascii_fold (New rs :: unit engine)
     (ToRuleString \<lparr>Command = ''aggregate'', Collection = ''t'', Database = ''d'',
        DangerousOps = [''$function''], EmptyFilter = False\<rparr>) ''u'' ''d'') = ActionBlock"
proof -
  have "harmful \<lparr>Command = ''aggregate'', Collection = ''t'', Database = ''d'',
      DangerousOps = [''$function''], EmptyFilter = False\<rparr>" by code_simp
  from harmful_commands_blocked [OF this, of ascii_fold] show ?thesis by blast
qed

text \<open>
  C3: from the wire to the verdict. For every client packet \<open>OP_MSG\<close> made of any flags, document
  sequences, a well-formed command document and anything after it: the command is extracted from the body section (the
  sequences are not looked at), and the rules block it when its name is one of the blocked commands, when a JavaScript operator occurs
  anywhere in the document (at any depth), or when it is a delete or an update that holds an empty
  document.
\<close>

theorem harmful_packets_blocked:
  assumes "mg_ResponseTo pkt = 0" and "mg_OpCode pkt = OpMsg" and "length flags = 4"
    and "\<forall>body \<in> set bs. length body + 4 < 2 ^ 32"
    and "doc_ok ((t, k, v) # es)"
    and "mg_Payload pkt = flags @ concat (map sequence_section bs) @ 0 # doc_bytes ((t, k, v) # es) @ r"
    and "list_ex (same_word k) blocked_commands
       \<or> (\<exists>op a b. op \<in> set js_operators \<and> doc_bytes ((t, k, v) # es) = a @ bytes_of op @ b)
       \<or> (k \<in> set [''delete'', ''update'']
            \<and> (\<exists>u f. u \<in> set [bsonDocument, bsonArray] \<and> (u, f, [5, 0, 0, 0, 0]) \<in> set es))"
  shows "\<exists>info rs. ExtractCommand pkt = Some (Some info) \<and> Command info = k
       \<and> DefaultMongoDBRules = Some rs \<and> (\<forall>user db.
           d_Action (Decide fold_rune (New rs :: unit engine) (ToRuleString info) user db) = ActionBlock)"
proof -
  let ?es = "(t, k, v) # es"
  let ?info = "info_of ?es"
  have k: "Command ?info = k" by (simp add: info_of_def command_of_def)
  have x: "ExtractCommand pkt = Some (Some ?info)"
    using assms(1-6) parseOpMsg_document [OF assms(3,4,5), of r]
    by (simp add: ExtractCommand_def IsClientMessage_def)
  have "harmful ?info"
    using assms(7)
  proof (elim disjE)
    assume "list_ex (same_word k) blocked_commands"
    then show ?thesis by (simp add: harmful_def k)
  next
    assume "\<exists>op a b. op \<in> set js_operators \<and> doc_bytes ?es = a @ bytes_of op @ b"
    then obtain op where op: "op \<in> set js_operators" "\<exists>a b. doc_bytes ?es = a @ bytes_of op @ b" by blast
    moreover have "op \<in> {''$where'', ''$function'', ''$accumulator''}"
      using op(1) unfolding js_operators_def by simp
    ultimately have "op \<in> set (DangerousOps ?info)"
      unfolding info_of_def by (simp add: ScanDangerousOps_iff)
    with op(1) show ?thesis by (auto simp: harmful_def list_ex_iff)
  next
    assume a: "k \<in> set [''delete'', ''update'']
        \<and> (\<exists>u f. u \<in> set [bsonDocument, bsonArray] \<and> (u, f, [5, 0, 0, 0, 0]) \<in> set es)"
    then obtain u f where "(u, f, [5, 0, 0, 0, 0]) \<in> set ?es" by auto
    from HasEmptyFilter_empty_document [OF this, of "[]"] a have "EmptyFilter ?info"
      by (auto simp: info_of_def command_of_def)
    then show ?thesis by (simp add: harmful_def)
  qed
  with x k show ?thesis using blocks_harmful by blast
qed

theorem harmful_packets_blocked_witness:
  "\<exists>info rs. ExtractCommand \<lparr>mg_MessageLength = 0, mg_RequestID = 1, mg_ResponseTo = 0, mg_OpCode = OpMsg,
       mg_Payload = [0, 0, 0, 0] @ concat (map sequence_section []) @ 0 # doc_bytes drop_orders @ [7],
       mg_Raw = []\<rparr> = Some (Some info)
     \<and> Command info = ''drop''
     \<and> DefaultMongoDBRules = Some rs
     \<and> d_Action (Decide ascii_fold (New rs :: unit engine) (ToRuleString info) ''u'' ''d'') = ActionBlock"
proof -
  obtain t v es where d: "drop_orders = (t, ''drop'', v) # es"
    by (simp add: drop_orders_def string_elem_def)
  have b: "list_ex (same_word ''drop'') blocked_commands" by code_simp
  let ?pkt = "\<lparr>mg_MessageLength = 0, mg_RequestID = 1, mg_ResponseTo = 0, mg_OpCode = OpMsg,
    mg_Payload = [0, 0, 0, 0] @ concat (map sequence_section []) @ 0 # doc_bytes drop_orders @ [7],
    mg_Raw = []\<rparr>"
  from harmful_packets_blocked [of ?pkt "[0, 0, 0, 0]" "[]" t "''drop''" v es "[7]" ascii_fold]
    drop_orders_ok b
  show ?thesis unfolding d by simp blast
qed

end
