(* ===== verification/RegexpCase.thy ===== *)
theory RegexpCase
  imports PatternWords
begin

text \<open>
  Patterns that do not see the case of ASCII letters: a syntactic criterion, and the proof that a
  pattern that meets it matches a text exactly if it matches every text with the same letters in any case.
\<close>

section \<open>The criterion\<close>

definition is_letter :: "rune \<Rightarrow> bool" where
  "is_letter r \<longleftrightarrow> 65 \<le> r \<and> r \<le> 90 \<or> 97 \<le> r \<and> r \<le> 122"

text \<open>A class with the same upper-case as lower-case letters.\<close>

definition both_cases :: "(rune \<times> rune) list \<Rightarrow> bool" where
  "both_cases rs \<longleftrightarrow> list_all (\<lambda>r. in_ranges rs r = in_ranges rs (r + 32)) [65..90]"

fun case_blind :: "regexp \<Rightarrow> bool" where
  "case_blind (Literal fc r) \<longleftrightarrow> fc \<or> \<not> is_letter r"
| "case_blind (CharClass fc neg rs) \<longleftrightarrow> fc \<or> both_cases rs"
| "case_blind (Concat a b) \<longleftrightarrow> case_blind a \<and> case_blind b"
| "case_blind (Alternate a b) \<longleftrightarrow> case_blind a \<and> case_blind b"
| "case_blind (Quest g a) \<longleftrightarrow> case_blind a"
| "case_blind (Star g a) \<longleftrightarrow> case_blind a"
| "case_blind re \<longleftrightarrow> True"

section \<open>Texts up to case\<close>

definition same_rune :: "rune \<Rightarrow> rune \<Rightarrow> bool" where
  "same_rune x y \<longleftrightarrow> lower_rune x = lower_rune y"

definition same_tokens :: "token list \<Rightarrow> token list \<Rightarrow> bool" where
  "same_tokens = list_all2 (\<lambda>(x, a) (y, b). same_rune x y)"

definition same_cursor :: "cursor \<Rightarrow> cursor \<Rightarrow> bool" where
  "same_cursor c d \<longleftrightarrow> rel_option same_rune (fst c) (fst d) \<and> same_tokens (snd c) (snd d)"

lemma same_rune_cases:
  "same_rune x y \<longleftrightarrow> x = y \<or> y = x + 32 \<and> 65 \<le> x \<and> x \<le> 90 \<or> x = y + 32 \<and> 65 \<le> y \<and> y \<le> 90"
  by (auto simp: same_rune_def lower_rune_def)

lemma same_rune_refl [simp]: "same_rune x x"
  by (simp add: same_rune_def)

lemma same_rune_sym: "same_rune x y \<Longrightarrow> same_rune y x"
  by (simp add: same_rune_def)

lemma same_tokens_sym: "same_tokens ts us \<Longrightarrow> same_tokens us ts"
  unfolding same_tokens_def by (subst list.rel_flip [symmetric]) (auto elim: list_all2_mono dest: same_rune_sym)

lemma same_cursor_sym: "same_cursor c d \<Longrightarrow> same_cursor d c"
  by (auto simp: same_cursor_def option.rel_sel dest: same_rune_sym same_tokens_sym)

lemma same_tokens_simps [simp]:
  "same_tokens [] us \<longleftrightarrow> us = []"
  "same_tokens ((x, a) # ts) us \<longleftrightarrow> (\<exists>y b us'. us = (y, b) # us' \<and> same_rune x y \<and> same_tokens ts us')"
  by (auto simp: same_tokens_def list_all2_Cons1)

text \<open>What a pattern looks at does not depend on the case.\<close>

lemma orbit_upper: "65 \<le> x \<Longrightarrow> x \<le> 90 \<Longrightarrow> fold_orbit (x + 32) = fold_orbit x"
  by (simp add: fold_orbit_def)

lemma same_orbit: "same_rune x y \<Longrightarrow> fold_orbit x = fold_orbit y"
  using orbit_upper [of x] orbit_upper [of y] by (auto simp: same_rune_cases)

lemma same_word_char: "same_rune x y \<Longrightarrow> IsWordChar x = IsWordChar y"
  by (auto simp: same_rune_cases IsWordChar_def)

lemma same_newline: "same_rune x y \<Longrightarrow> x = 10 \<longleftrightarrow> y = 10"
  by (auto simp: same_rune_cases)

lemma same_literal:
  assumes "same_rune x y" and "fc \<or> \<not> is_letter r"
  shows "is_literal fc r x \<longleftrightarrow> is_literal fc r y"
  using assms same_orbit [OF assms(1)] by (auto simp: is_literal_def is_letter_def same_rune_cases)

lemma same_ranges:
  assumes "same_rune x y" and "both_cases rs"
  shows "in_ranges rs x \<longleftrightarrow> in_ranges rs y"
proof -
  have "\<forall>r \<in> set [65..90]. in_ranges rs r = in_ranges rs (r + 32)"
    using assms(2) unfolding both_cases_def list_all_iff .
  then have "in_ranges rs r \<longleftrightarrow> in_ranges rs (r + 32)" if "65 \<le> r" "r \<le> 90" for r
    using that by (simp only: set_upto atLeastAtMost_iff)
  with assms(1) show ?thesis by (auto simp: same_rune_cases)
qed

lemma same_class:
  assumes "same_rune x y" and "fc \<or> both_cases rs"
  shows "in_class fc neg rs x \<longleftrightarrow> in_class fc neg rs y"
  using same_orbit [OF assms(1)] same_ranges [OF assms(1), of rs] assms(2)
  by (auto simp: in_class_def list_ex_iff)

lemma same_word_at: "rel_option same_rune p q \<Longrightarrow> word_at p = word_at q"
  by (auto simp: word_at_def option.rel_sel dest: same_word_char split: option.splits)

lemma same_next: "same_cursor c d \<Longrightarrow> rel_option same_rune (next_rune c) (next_rune d)"
  by (cases c rule: next_rune.cases; cases d) (auto simp: same_cursor_def)

lemma same_boundary: "same_cursor c d \<Longrightarrow> boundary c = boundary d"
  using same_word_at [OF same_next, of c d] same_word_at [of "fst c" "fst d"]
  by (simp add: boundary_def same_cursor_def)

lemma same_at_line: "rel_option same_rune p q \<Longrightarrow> (p = None \<or> p = Some 10) = (q = None \<or> q = Some 10)"
  by (cases p; cases q) (auto dest: same_newline)

section \<open>Matching\<close>

lemma match_same:
  assumes "match_re re c c'" and "case_blind re" and "same_cursor c d"
  shows "\<exists>d'. match_re re d d' \<and> same_cursor c' d'"
  using assms
proof (induction arbitrary: d rule: match_re.induct)
  case (literal fc r x p b ts)
  then show ?case
    by (cases d) (auto simp: same_cursor_def dest: same_literal)
next
  case (char_class fc neg rs x p b ts)
  then show ?case by (cases d) (auto simp: same_cursor_def dest: same_class)
next
  case (any_char p x b ts)
  then show ?case by (cases d) (auto simp: same_cursor_def)
next
  case (any_char_not_nl x p b ts)
  then show ?case by (cases d) (auto simp: same_cursor_def dest: same_newline)
next
  case (begin_line p ts)
  then show ?case using same_at_line by (cases d) (auto simp: same_cursor_def)
next
  case (end_line c)
  then show ?case using same_at_line [OF same_next] by auto
next
  case (begin_text ts)
  then show ?case by (cases d) (auto simp: same_cursor_def)
next
  case (end_text c)
  then show ?case using same_next [of c d] by auto
next
  case (word_boundary c)
  then show ?case using same_boundary by auto
next
  case (no_word_boundary c)
  then show ?case using same_boundary by auto
next
  case (concat a c1 c2 b c3)
  then show ?case by (meson case_blind.simps(3) match_re.concat)
next
  case (left a c1 c2 b)
  then show ?case by (meson case_blind.simps(4) match_re.left)
next
  case (right b c1 c2 a)
  then show ?case by (meson case_blind.simps(4) match_re.right)
next
  case (once a c1 c2 g)
  then show ?case by (meson case_blind.simps(5) match_re.once)
next
  case (again a c1 c2 g c3)
  then show ?case by (meson case_blind.simps(6) match_re.again)
qed (auto intro: match_re.intros)

lemma same_tokens_append:
  "same_tokens (as @ bs) us \<Longrightarrow> \<exists>us1 us2. us = us1 @ us2 \<and> same_tokens as us1 \<and> same_tokens bs us2"
  by (auto simp: same_tokens_def list_all2_append1)

lemma same_last_rune:
  assumes "same_tokens ts us"
  shows "rel_option same_rune (last_rune None ts) (last_rune None us)"
proof (cases "ts = []")
  case False
  then have "us \<noteq> []" using assms by (auto simp: same_tokens_def)
  then have "(\<lambda>(x, a) (y, b). same_rune x y) (last ts) (last us)"
    using assms False list_all2_lengthD [of _ ts us] list_all2_nthD [of _ ts us "length ts - 1"]
    by (simp add: same_tokens_def last_conv_nth)
  with False \<open>us \<noteq> []\<close> show ?thesis by (simp add: last_rune_def split: prod.splits)
qed (use assms in simp)

section \<open>Strings\<close>

text \<open>Changing the case of ASCII letters does not change how a string decodes.\<close>

definition same_byte :: "byte \<Rightarrow> byte \<Rightarrow> bool" where
  "same_byte a b \<longleftrightarrow> same_rune (uint a) (uint b)"

lemma same_byte_at: "list_all2 same_byte as bs \<Longrightarrow> same_rune (byte_at as i) (byte_at bs i)"
  by (auto simp: byte_at_def list_all2_conv_all_nth same_byte_def)

lemma same_cont:
  assumes "same_rune x y" and "cont x \<or> 0x80 \<le> x"
  shows "x = y"
  using assms by (auto simp: same_rune_cases cont_def)

lemma same_rune_cont: "same_rune x y \<Longrightarrow> cont x = cont y"
  by (auto simp: same_rune_cases cont_def)

lemma same_DecodeRune:
  assumes "list_all2 same_byte as bs"
  shows "same_rune (fst (DecodeRune as)) (fst (DecodeRune bs)) \<and> snd (DecodeRune as) = snd (DecodeRune bs)"
proof -
  note s = same_byte_at [OF assms]
  have e: "byte_at as i = byte_at bs i \<or> \<not> cont (byte_at as i) \<and> \<not> cont (byte_at bs i)" for i
    using same_cont [OF s] same_rune_cont [OF s] by blast
  show ?thesis
  proof (cases "byte_at as 0 < 0x80")
    case True
    with s [of 0] have "byte_at bs 0 < 0x80" by (auto simp: same_rune_cases)
    with True s [of 0] show ?thesis by (simp add: DecodeRune_def Let_def)
  next
    case False
    then have e0: "byte_at as 0 = byte_at bs 0" using same_cont [OF s] by auto
    have "DecodeRune as = DecodeRune bs"
      using e [of 1] e [of 2] e [of 3] unfolding DecodeRune_def Let_def e0
      by (elim disjE conjE; simp only: simp_thms if_False)
    then show ?thesis by simp
  qed
qed

lemma same_runes: "list_all2 same_byte as bs \<Longrightarrow> same_tokens (runes as) (runes bs)"
proof (induction as arbitrary: bs rule: runes.induct)
  case (1 as)
  show ?case
  proof (cases "as = []")
    case False
    let ?n = "snd (DecodeRune as)"
    have ne: "bs \<noteq> []" using False 1(2) by auto
    have d: "same_rune (fst (DecodeRune as)) (fst (DecodeRune bs))" "snd (DecodeRune bs) = ?n"
      using same_DecodeRune [OF 1(2)] by simp_all
    have "same_tokens (runes (drop ?n as)) (runes (drop ?n bs))"
      using 1(1) [OF False] 1(2) list_all2_dropI by blast
    with False ne d show ?thesis by (subst (1 2) runes.simps) simp
  qed (use 1(2) in simp)
qed

lemma same_word_bytes: "same_word s t \<Longrightarrow> list_all2 same_byte (bytes_of s) (bytes_of t)"
  by (simp add: same_word_def bytes_of_def list_all2_conv_all_nth same_byte_def same_rune_def
      uint_byte_of_char list_eq_iff_nth_eq)

lemma same_word_sym: "same_word s t \<Longrightarrow> same_word t s"
  by (simp add: same_word_def)

lemma MatchString_same_imp:
  assumes "case_blind re" and "same_word s t" and "MatchString re s"
  shows "MatchString re t"
proof -
  obtain pre post c where m: "runes (bytes_of s) = pre @ post" "match_re re (last_rune None pre, post) c"
    using assms(3) unfolding MatchString_iff by blast
  have "same_tokens (pre @ post) (runes (bytes_of t))"
    using same_runes [OF same_word_bytes [OF assms(2)]] m(1) by simp
  then obtain pre' post' where t: "runes (bytes_of t) = pre' @ post'" "same_tokens pre pre'" "same_tokens post post'"
    using same_tokens_append by blast
  have "same_cursor (last_rune None pre, post) (last_rune None pre', post')"
    using same_last_rune [OF t(2)] t(3) by (simp add: same_cursor_def)
  from match_same [OF m(2) assms(1) this] t(1) show ?thesis unfolding MatchString_iff by blast
qed

lemma MatchString_same: "case_blind re \<Longrightarrow> same_word s t \<Longrightarrow> MatchString re s = MatchString re t"
  using MatchString_same_imp same_word_sym by blast

end
