(* ===== verification/RegexpContext.thy ===== *)
theory RegexpContext
  imports PatternWords
begin

text \<open>
  Matches in a larger text. A pattern without anchors that matches a text matches it inside any other text,
  as long as no word of the surroundings touches it. If the pattern also consumes no line break, the
  converse holds at line breaks: it sees each line of a text on its own.
\<close>

section \<open>The criteria\<close>

fun anchor_free :: "regexp \<Rightarrow> bool" where
  "anchor_free BeginLine \<longleftrightarrow> False"
| "anchor_free EndLine \<longleftrightarrow> False"
| "anchor_free BeginText \<longleftrightarrow> False"
| "anchor_free EndText \<longleftrightarrow> False"
| "anchor_free (Concat a b) \<longleftrightarrow> anchor_free a \<and> anchor_free b"
| "anchor_free (Alternate a b) \<longleftrightarrow> anchor_free a \<and> anchor_free b"
| "anchor_free (Quest g a) \<longleftrightarrow> anchor_free a"
| "anchor_free (Star g a) \<longleftrightarrow> anchor_free a"
| "anchor_free re \<longleftrightarrow> True"

fun newline_free :: "regexp \<Rightarrow> bool" where
  "newline_free (Literal fc r) \<longleftrightarrow> \<not> is_literal fc r 10"
| "newline_free (CharClass fc neg rs) \<longleftrightarrow> \<not> in_class fc neg rs 10"
| "newline_free AnyChar \<longleftrightarrow> False"
| "newline_free (Concat a b) \<longleftrightarrow> newline_free a \<and> newline_free b"
| "newline_free (Alternate a b) \<longleftrightarrow> newline_free a \<and> newline_free b"
| "newline_free (Quest g a) \<longleftrightarrow> newline_free a"
| "newline_free (Star g a) \<longleftrightarrow> newline_free a"
| "newline_free re \<longleftrightarrow> True"

section \<open>Cursors in a larger text\<close>

text \<open>The cursor \<open>d\<close> is \<open>c\<close> with \<open>tail\<close> behind its text, and no word begins or ends differently.\<close>

definition in_context :: "token list \<Rightarrow> cursor \<Rightarrow> cursor \<Rightarrow> bool" where
  "in_context tail c d \<longleftrightarrow> word_at (fst c) = word_at (fst d) \<and> snd d = snd c @ tail"

definition no_word_ahead :: "token list \<Rightarrow> bool" where
  "no_word_ahead tail \<longleftrightarrow> \<not> word_at (next_rune (None, tail))"

lemma next_rune_swap: "next_rune (p, ts) = next_rune (q, ts)"
  by (cases "(p, ts)" rule: next_rune.cases) auto

lemma next_rune_context:
  assumes "no_word_ahead tail" and "in_context tail c d"
  shows "word_at (next_rune c) = word_at (next_rune d)"
proof (cases c rule: next_rune.cases)
  case (1 p)
  then have "d = (fst d, tail)" using assms(2) by (cases d) (simp add: in_context_def)
  then have "next_rune d = next_rune (None, tail)" using next_rune_swap by metis
  then show ?thesis using assms(1) by (simp add: 1 no_word_ahead_def word_at_def)
next
  case (2 p r b ts)
  then show ?thesis using assms(2) by (cases d) (simp add: in_context_def)
qed

lemma boundary_context:
  "no_word_ahead tail \<Longrightarrow> in_context tail c d \<Longrightarrow> boundary c = boundary d"
  using next_rune_context [of tail c d] by (simp add: boundary_def in_context_def)

lemma newline_no_word: "no_word_ahead ((10, b) # us)"
  by (simp add: no_word_ahead_def word_at_def IsWordChar_def)

lemma in_context_Cons:
  "in_context tail (p, (x, b) # ts) d \<longleftrightarrow>
     (\<exists>q. d = (q, (x, b) # ts @ tail) \<and> word_at p = word_at q)"
  by (cases d) (auto simp: in_context_def)

lemma in_context_next: "in_context tail (Some x, ts) (Some x, ts @ tail)"
  by (simp add: in_context_def)

lemma in_context_back:
  assumes "in_context ((10, b) # us) c (q, (x, b') # ts)" and "x \<noteq> 10"
  shows "\<exists>p ts'. c = (p, (x, b') # ts') \<and> in_context ((10, b) # us) (Some x, ts') (Some x, ts)"
  using assms by (cases c rule: next_rune.cases) (auto simp: in_context_def)

lemma match_embed:
  assumes "match_re re c c'" and "anchor_free re" and "no_word_ahead tail" and "in_context tail c d"
  shows "\<exists>d'. match_re re d d' \<and> in_context tail c' d'"
  using assms
proof (induction arbitrary: d rule: match_re.induct)
  case (word_boundary c)
  then show ?case using boundary_context [of tail c d] by simp
next
  case (no_word_boundary c)
  then show ?case using boundary_context [of tail c d] by simp
next
  case (concat a c1 c2 b c3)
  then show ?case by (meson anchor_free.simps(5) match_re.concat)
next
  case (left a c1 c2 b)
  then show ?case by (meson anchor_free.simps(6) match_re.left)
next
  case (right b c1 c2 a)
  then show ?case by (meson anchor_free.simps(6) match_re.right)
next
  case (once a c1 c2 g)
  then show ?case by (meson anchor_free.simps(7) match_re.once)
next
  case (again a c1 c2 g c3)
  then show ?case by (meson anchor_free.simps(8) match_re.again)
next
  case (none g a c)
  then show ?case using match_re.none by blast
next
  case (stop g a c)
  then show ?case using match_re.stop by blast
next
  case (literal fc r x p b ts)
  then show ?case by (auto simp: in_context_Cons intro: in_context_next)
next
  case (char_class fc neg rs x p b ts)
  then show ?case by (auto simp: in_context_Cons intro: in_context_next)
next
  case (any_char x p b ts)
  then show ?case by (auto simp: in_context_Cons intro: in_context_next)
next
  case (any_char_not_nl x p b ts)
  then show ?case by (auto simp: in_context_Cons intro: in_context_next)
qed simp_all

lemma match_restrict:
  assumes "match_re re d d'" and "anchor_free re" and "newline_free re"
    and "tail = (10, b) # us" and "in_context tail c d"
  shows "\<exists>c'. match_re re c c' \<and> in_context tail c' d'"
  using assms
proof (induction arbitrary: c rule: match_re.induct)
  case (word_boundary d)
  then show ?case using boundary_context [of tail c d] newline_no_word by simp
next
  case (no_word_boundary d)
  then show ?case using boundary_context [of tail c d] newline_no_word by simp
next
  case (concat a d1 d2 b' d3)
  then show ?case by (meson anchor_free.simps(5) newline_free.simps(4) match_re.concat)
next
  case (left a d1 d2 b')
  then show ?case by (meson anchor_free.simps(6) newline_free.simps(5) match_re.left)
next
  case (right b' d1 d2 a)
  then show ?case by (meson anchor_free.simps(6) newline_free.simps(5) match_re.right)
next
  case (once a d1 d2 g)
  then show ?case by (meson anchor_free.simps(7) newline_free.simps(6) match_re.once)
next
  case (again a d1 d2 g d3)
  then show ?case by (meson anchor_free.simps(8) newline_free.simps(7) match_re.again)
next
  case (none g a d)
  then show ?case using match_re.none by blast
next
  case (stop g a d)
  then show ?case using match_re.stop by blast
next
  case (literal fc r x q b' ts)
  then have "x \<noteq> 10" by auto
  with literal in_context_back [of b us c q x b' ts] show ?case by fastforce
next
  case (char_class fc neg rs x q b' ts)
  then have "x \<noteq> 10" by auto
  with char_class in_context_back [of b us c q x b' ts] show ?case by fastforce
next
  case (any_char_not_nl x q b' ts)
  then show ?case using in_context_back [of b us c q x b' ts] by fastforce
qed simp_all

section \<open>Strings\<close>

lemma runes_after_ascii:
  assumes "uint b < 0x80"
  shows "runes (as @ b # bs) = runes (as @ [b]) @ runes bs"
  using runes_append_ascii [OF assms, of as bs] runes_append_ascii [OF assms, of as "[]"]
  by (simp add: runes_ascii_Cons [OF assms])

lemma edge_split:
  assumes "edge_before pre" and "edge_after post"
  shows "runes (bytes_of (pre @ s @ post)) = runes (bytes_of pre) @ runes (bytes_of s) @ runes (bytes_of post)"
proof -
  have pre: "runes (bytes_of pre @ bs) = runes (bytes_of pre) @ runes bs" for bs
  proof (cases "pre = []")
    case False
    then have p: "bytes_of pre = bytes_of (butlast pre) @ [byte_of_char (last pre)]"
      by (metis append_butlast_last_id bytes_of_append bytes_of_def list.simps(8) list.simps(9))
    have "uint (byte_of_char (last pre)) < 0x80"
      using assms(1) False by (simp add: edge_before_def uint_byte_of_char)
    from runes_after_ascii [OF this, of "bytes_of (butlast pre)" bs] show ?thesis by (simp add: p)
  qed simp
  have post: "runes (as @ bytes_of post) = runes as @ runes (bytes_of post)" for as
  proof (cases post)
    case (Cons c s')
    then have "uint (byte_of_char c) < 0x80"
      using assms(2) by (simp add: edge_after_def uint_byte_of_char)
    from runes_append_ascii [OF this, of as "bytes_of s'"] show ?thesis by (simp add: Cons bytes_of_def)
  qed simp
  show ?thesis using pre post by simp
qed

lemma MatchString_embed:
  assumes "anchor_free re" and "MatchString re s" and "edge_before pre" and "edge_after post"
  shows "MatchString re (pre @ s @ post)"
proof -
  obtain xs ys c where m: "runes (bytes_of s) = xs @ ys" "match_re re (last_rune None xs, ys) c"
    using assms(2) unfolding MatchString_iff by blast
  let ?p = "last_rune None (runes (bytes_of pre))" and ?q = "runes (bytes_of post)"
  have "no_word_ahead ?q"
    using not_word_after [OF assms(4)] by (simp add: no_word_ahead_def)
  moreover have "in_context ?q (last_rune None xs, ys) (last_rune ?p xs, ys @ ?q)"
    using not_word_before [OF assms(3)] by (simp add: in_context_def last_rune_def word_at_def)
  ultimately obtain d where "match_re re (last_rune ?p xs, ys @ ?q) d"
    using match_embed [OF m(2) assms(1)] by blast
  moreover have "runes (bytes_of (pre @ s @ post)) = (runes (bytes_of pre) @ xs) @ ys @ ?q"
    using edge_split [OF assms(3,4)] m(1) by simp
  ultimately show ?thesis unfolding MatchString_iff using last_rune_append by metis
qed

lemma line_edges: "edge_before (a @ [CHR 0x0A])" "edge_after (CHR 0x0A # b)"
  by (simp_all add: edge_before_def edge_after_def rune_of_def IsWordChar_def)

lemma runes_line:
  "runes (bytes_of (a @ CHR 0x0A # b)) = runes (bytes_of a) @ (10, [10]) # runes (bytes_of b)"
proof -
  have "bytes_of (CHR 0x0A # b) = 10 # bytes_of b" by (simp add: bytes_of_def byte_of_char_def)
  then show ?thesis
    using edge_split [OF _ line_edges(2), of "[]" a b] by (simp add: edge_before_def runes_ascii_Cons)
qed

lemma MatchString_lines:
  assumes "anchor_free re" and "newline_free re"
  shows "MatchString re (a @ CHR 0x0A # b) \<longleftrightarrow> MatchString re a \<or> MatchString re b"
proof
  assume "MatchString re (a @ CHR 0x0A # b)"
  then obtain xs ys d where split: "runes (bytes_of a) @ (10, [10]) # runes (bytes_of b) = xs @ ys"
      and m: "match_re re (last_rune None xs, ys) d"
    unfolding MatchString_iff runes_line by blast
  from split consider (first) us where "runes (bytes_of a) = xs @ us" "ys = us @ (10, [10]) # runes (bytes_of b)"
    | (second) vs where "xs = runes (bytes_of a) @ (10, [10]) # vs" "runes (bytes_of b) = vs @ ys"
    by (auto simp: append_eq_append_conv2 Cons_eq_append_conv)
  then show "MatchString re a \<or> MatchString re b"
  proof cases
    case first
    then have "in_context ((10, [10]) # runes (bytes_of b)) (last_rune None xs, us) (last_rune None xs, ys)"
      by (simp add: in_context_def)
    from match_restrict [OF m assms refl this] first(1) show ?thesis unfolding MatchString_iff by blast
  next
    case second
    then have "in_context [] (last_rune None xs, ys) (last_rune None vs, ys)"
      by (simp add: in_context_def last_rune_def word_at_def IsWordChar_def)
    moreover have "no_word_ahead []" by (simp add: no_word_ahead_def word_at_def)
    ultimately obtain d' where "match_re re (last_rune None vs, ys) d'"
      using match_embed [OF m assms(1)] by blast
    with second(2) show ?thesis unfolding MatchString_iff by blast
  qed
next
  assume "MatchString re a \<or> MatchString re b"
  then show "MatchString re (a @ CHR 0x0A # b)"
  proof
    assume "MatchString re a"
    from MatchString_embed [OF assms(1) this _ line_edges(2), of "[]" b]
    show ?thesis by (simp add: edge_before_def)
  next
    assume "MatchString re b"
    from MatchString_embed [OF assms(1) this line_edges(1), of "[]" a]
    show ?thesis by (simp add: edge_after_def)
  qed
qed

end
