(* ===== verification/RuleSets.thy ===== *)
theory RuleSets
  imports DefaultRules RegexpCase RegexpContext
begin

text \<open>
  What holds of the built-in SQL rule sets as a whole: they do not see the case of letters, nothing around
  an attack hides it, and the rules whose patterns have a dot look at each line on its own.
\<close>

section \<open>Letter case\<close>

definition rule_case_blind :: "rule \<Rightarrow> bool" where
  "rule_case_blind r \<longleftrightarrow> (case r_SQLPattern r of Some re \<Rightarrow> case_blind re | None \<Rightarrow> True)"

lemma sql_rules_case_blind:
  "map_option (list_all rule_case_blind) DefaultRules = Some True"
  "map_option (list_all rule_case_blind) DefaultPostgresRules = Some True"
  by code_simp+

lemma rule_matches_same_case:
  "rule_case_blind r \<Longrightarrow> same_word s t \<Longrightarrow>
     rule_matches fold_rune r s user db = rule_matches fold_rune r t user db"
  by (auto simp: rule_matches_def rule_case_blind_def MatchString_same split: option.splits)

lemma decide_rules_same_case:
  "list_all rule_case_blind rs \<Longrightarrow> same_word s t \<Longrightarrow>
     decide_rules fold_rune rs s user db = decide_rules fold_rune rs t user db"
  by (induction rs) (simp_all add: rule_matches_same_case)

text \<open>
  C19: Changing the case of letters cannot get a statement past the SQL rules, nor get a harmless one
  caught: the MySQL and the PostgreSQL rule set give the same decision, rule name included, for any two
  statements that differ in the case of ASCII letters only, whatever other bytes they contain.
\<close>

theorem letter_case_irrelevant:
  assumes "same_word sql sql'"
  shows "\<exists>my pg. DefaultRules = Some my \<and> DefaultPostgresRules = Some pg
     \<and> (\<forall>user db. Decide fold_rune (New my :: 'w engine) sql user db = Decide fold_rune (New my) sql' user db
         \<and> Decide fold_rune (New pg :: 'w engine) sql user db = Decide fold_rune (New pg) sql' user db)"
proof -
  obtain my pg where sets: "DefaultRules = Some my" "list_all rule_case_blind my"
      "DefaultPostgresRules = Some pg" "list_all rule_case_blind pg"
    using sql_rules_case_blind by auto
  show ?thesis
    using decide_rules_same_case [OF sets(2) assms] decide_rules_same_case [OF sets(4) assms] sets(1,3)
    by (intro exI [of _ my] exI [of _ pg]) (simp add: Decide_def New_def)
qed

theorem letter_case_irrelevant_witness:
  "\<exists>my. DefaultRules = Some my
     \<and> Decide ascii_fold (New my :: unit engine) ''sELECT sLeEp(5)'' ''app'' ''shop''
       = Decide ascii_fold (New my) ''select SLEEP(5)'' ''app'' ''shop''"
proof -
  have "same_word ''sELECT sLeEp(5)'' ''select SLEEP(5)''" by code_simp
  from letter_case_irrelevant [OF this, of ascii_fold] show ?thesis by blast
qed

section \<open>Attacks in a larger text\<close>

text \<open>The rules that find their pattern anywhere in a text; \<open>ddl-truncate\<close> looks at its beginning only.\<close>

definition finds_anywhere :: "rule \<Rightarrow> bool" where
  "finds_anywhere r \<longleftrightarrow> r_Action r = ActionBlock \<and> r_Name r \<noteq> ''ddl-truncate''"

definition rule_anchor_free :: "rule \<Rightarrow> bool" where
  "rule_anchor_free r \<longleftrightarrow> (case r_SQLPattern r of Some re \<Rightarrow> anchor_free re | None \<Rightarrow> True)"

lemma sql_rules_anchor_free:
  "map_option (list_all (\<lambda>r. finds_anywhere r \<longrightarrow> rule_anchor_free r)) DefaultRules = Some True"
  "map_option (list_all (\<lambda>r. finds_anywhere r \<longrightarrow> rule_anchor_free r)) DefaultPostgresRules = Some True"
  by code_simp+

lemma decide_rules_found:
  "d_Action (decide_rules fold_rune rs sql user db) = ActionBlock \<Longrightarrow>
     \<exists>r \<in> set rs. rule_matches fold_rune r sql user db \<and> r_Action r = ActionBlock
       \<and> r_Name r = d_Rule (decide_rules fold_rune rs sql user db)"
  by (induction rs) (auto simp: action_defs)

lemma rule_matches_in_context:
  assumes "rule_matches fold_rune r s user db" and "rule_anchor_free r" and "rule_case_blind r"
    and "same_word s s'" and "edge_before pre" and "edge_after post"
  shows "rule_matches fold_rune r (pre @ s' @ post) user db"
proof (cases "r_SQLPattern r")
  case (Some re)
  with assms(1,3,4) have "MatchString re s'"
    by (auto simp: rule_matches_def rule_case_blind_def MatchString_same [symmetric] split: if_splits)
  with MatchString_embed [OF _ this assms(5,6)] Some assms(1,2) show ?thesis
    by (auto simp: rule_matches_def rule_anchor_free_def split: if_splits)
qed (use assms(1) in \<open>auto simp: rule_matches_def split: if_splits\<close>)

lemma rule_set_in_context:
  assumes "block_first rs" and "list_all rule_case_blind rs"
    and "list_all (\<lambda>r. finds_anywhere r \<longrightarrow> rule_anchor_free r) rs"
    and "same_word s s'" and "edge_before pre" and "edge_after post"
    and "r \<in> set rs" and "finds_anywhere r" and "rule_matches fold_rune r s user db"
  shows "d_Action (Decide fold_rune (New rs :: 'w engine) (pre @ s' @ post) user db) = ActionBlock"
proof -
  have "rule_matches fold_rune r (pre @ s' @ post) user db"
    using assms by (intro rule_matches_in_context) (auto simp: list_all_iff)
  with block_first_decides [OF assms(1,7)] assms(8) show ?thesis
    by (simp add: Decide_def New_def finds_anywhere_def)
qed

text \<open>A short attack for every alternative of these rules, by rule.\<close>

definition mysql_attacks :: "(string \<times> string list) list" where
  "mysql_attacks =
    [(''sqli-or-always-true'', map raw [''OR 1=1'', ''OR ~a~=~b~'', ''OR #a#=#b#'', ''OR true'']),
     (''sqli-union-select'', [''UNION SELECT'', ''UNION ALL SELECT'']),
     (''sqli-stacked-queries'', map (append '';'')
        [''DROP'', ''INSERT'', ''UPDATE'', ''DELETE'', ''CREATE'', ''ALTER'', ''TRUNCATE'', ''EXEC'']),
     (''sqli-time-based'', [''SLEEP('', ''BENCHMARK('']),
     (''exfil-file-ops'', [''LOAD_FILE('', ''INTO OUTFILE'', ''INTO DUMPFILE'']),
     (''ddl-drop'', map (append ''DROP '') droppable),
     (''privesc-grant'', [''GRANT r TO'']),
     (''privesc-user-mgmt'', [''CREATE USER'', ''ALTER USER''])]"

definition postgres_attacks :: "(string \<times> string list) list" where
  "postgres_attacks =
    [(''sqli-or-always-true'', map raw [''OR 1=1'', ''OR ~a~=~b~'', ''OR #a#=#b#'', ''OR true'']),
     (''sqli-union-select'', [''UNION SELECT'', ''UNION ALL SELECT'']),
     (''sqli-stacked-queries'', map (append '';'')
        [''DROP'', ''INSERT'', ''UPDATE'', ''DELETE'', ''CREATE'', ''ALTER'', ''TRUNCATE'']),
     (''sqli-time-based-pg'', [''pg_sleep('']),
     (''exfil-pg-file-read'', [''pg_read_file('', ''pg_read_binary_file('', ''pg_ls_dir('']),
     (''exfil-copy-file'', map raw [''COPY t TO ~'', ''COPY t FROM ~'', ''COPY t FROM E~'']),
     (''exfil-large-object'', [''lo_import('', ''lo_export('']),
     (''rce-server-program'', [''pg_execute_server_program('']),
     (''ddl-drop'', map (append ''DROP '') (''SEQUENCE'' # droppable)),
     (''privesc-grant'', [''GRANT r TO'']),
     (''privesc-role-mgmt'', [''CREATE ROLE'', ''ALTER ROLE'', ''CREATE USER'', ''ALTER USER''])]"

definition attacks :: "(string \<times> string list) list \<Rightarrow> string list" where
  "attacks table = concat (map snd table)"

text \<open>Each attack is found by the rule it is listed under, for every user and database.\<close>

definition rule_finds :: "string list \<Rightarrow> rule \<Rightarrow> bool" where
  "rule_finds ss r \<longleftrightarrow> r_Users r = [] \<and> r_Databases r = []
     \<and> (case r_SQLPattern r of Some re \<Rightarrow> list_all (MatchString re) ss | None \<Rightarrow> True)"

definition catches :: "(string \<times> string list) list \<Rightarrow> rule list \<Rightarrow> bool" where
  "catches table rs \<longleftrightarrow>
     list_all (\<lambda>(n, ss). list_ex (\<lambda>r. if r_Name r = n then finds_anywhere r \<and> rule_finds ss r else False) rs) table"

lemma mysql_attacks_caught: "map_option (catches mysql_attacks) DefaultRules = Some True"
  by code_simp

lemma postgres_attacks_caught: "map_option (catches postgres_attacks) DefaultPostgresRules = Some True"
  by code_simp

lemma catches_attack:
  assumes "catches table rs" and "s \<in> set (attacks table)"
  shows "\<exists>r \<in> set rs. finds_anywhere r \<and> rule_matches fold_rune r s user db"
proof -
  obtain n ss where t: "(n, ss) \<in> set table" "s \<in> set ss" using assms(2) by (auto simp: attacks_def)
  then obtain r where "r \<in> set rs" "finds_anywhere r" "rule_finds ss r"
    using assms(1) by (auto simp: catches_def list_all_iff list_ex_iff split: if_splits)
  with t(2) show ?thesis
    by (intro bexI [of _ r]) (auto simp: rule_finds_def rule_matches_def list_all_iff split: option.splits)
qed

lemma rule_set_anywhere:
  assumes "map_option block_first rset = Some True" and "map_option (list_all rule_case_blind) rset = Some True"
    and "map_option (list_all (\<lambda>r. finds_anywhere r \<longrightarrow> rule_anchor_free r)) rset = Some True"
    and "map_option (catches table) rset = Some True"
    and "same_word s s'" and "edge_before pre" and "edge_after post"
  shows "\<exists>rs. rset = Some rs
     \<and> (\<forall>user db. s \<in> set (attacks table)
          \<or> d_Action (Decide fold_rune (New rs :: 'w engine) s user db) = ActionBlock
            \<and> d_Rule (Decide fold_rune (New rs :: 'w engine) s user db) \<noteq> ''ddl-truncate''
          \<longrightarrow> d_Action (Decide fold_rune (New rs :: 'w engine) (pre @ s' @ post) user db) = ActionBlock)"
proof -
  obtain rs where rs: "rset = Some rs" "block_first rs" "list_all rule_case_blind rs"
    "list_all (\<lambda>r. finds_anywhere r \<longrightarrow> rule_anchor_free r) rs" "catches table rs"
    using assms(1-4) by auto
  have "d_Action (Decide fold_rune (New rs :: 'w engine) (pre @ s' @ post) user db) = ActionBlock"
    if blocked: "s \<in> set (attacks table) \<or> d_Action (Decide fold_rune (New rs :: 'w engine) s user db) = ActionBlock
            \<and> d_Rule (Decide fold_rune (New rs :: 'w engine) s user db) \<noteq> ''ddl-truncate''" for user db
  proof -
    obtain r where "r \<in> set rs" "finds_anywhere r" "rule_matches fold_rune r s user db"
      using blocked catches_attack [OF rs(5), of s fold_rune user db]
        decide_rules_found [of fold_rune rs s user db]
      by (auto simp: Decide_def New_def finds_anywhere_def)
    then show ?thesis using rule_set_in_context [OF rs(2-4) assms(5-7)] by blast
  qed
  with rs(1) show ?thesis by blast
qed

text \<open>
  C20: nothing around an attack hides it. If an SQL rule set blocks a text by any rule but the one anchored at
  the beginning (\<open>ddl-truncate\<close>), then it blocks every text that contains it, in any letter case and with
  any bytes before and after, as long as no letter, digit, underscore or non-ASCII byte touches it; and so
  it blocks every text that contains, in the same way, an attack of the tables above, which have one for
  each alternative of each of these rules.
\<close>

theorem context_cannot_hide:
  assumes "same_word s s'" and "edge_before pre" and "edge_after post"
  shows "\<exists>my pg. DefaultRules = Some my \<and> DefaultPostgresRules = Some pg
     \<and> (\<forall>user db. s \<in> set (attacks mysql_attacks)
          \<or> d_Action (Decide fold_rune (New my :: 'w engine) s user db) = ActionBlock
            \<and> d_Rule (Decide fold_rune (New my :: 'w engine) s user db) \<noteq> ''ddl-truncate''
          \<longrightarrow> d_Action (Decide fold_rune (New my :: 'w engine) (pre @ s' @ post) user db) = ActionBlock)
     \<and> (\<forall>user db. s \<in> set (attacks postgres_attacks)
          \<or> d_Action (Decide fold_rune (New pg :: 'w engine) s user db) = ActionBlock
            \<and> d_Rule (Decide fold_rune (New pg :: 'w engine) s user db) \<noteq> ''ddl-truncate''
          \<longrightarrow> d_Action (Decide fold_rune (New pg :: 'w engine) (pre @ s' @ post) user db) = ActionBlock)"
  using rule_set_anywhere [OF rule_sets_compile(1) sql_rules_case_blind(1) sql_rules_anchor_free(1)
      mysql_attacks_caught assms]
    rule_set_anywhere [OF rule_sets_compile(2) sql_rules_case_blind(2) sql_rules_anchor_free(2)
      postgres_attacks_caught assms]
  by blast

theorem context_cannot_hide_witness:
  "\<exists>my. DefaultRules = Some my
     \<and> d_Action (Decide ascii_fold (New my :: unit engine) (''SELECT a '' @ ''into OutFile'' @ '' x'') ''app'' ''shop'')
       = ActionBlock"
proof -
  have "same_word ''INTO OUTFILE'' ''into OutFile''" "edge_before ''SELECT a ''" "edge_after '' x''" by code_simp+
  moreover have "''INTO OUTFILE'' \<in> set (attacks mysql_attacks)" by (simp add: attacks_def mysql_attacks_def)
  ultimately show ?thesis using context_cannot_hide [of "''INTO OUTFILE''" _ _ _ ascii_fold] by blast
qed

section \<open>Statements over several lines\<close>

definition rule_named :: "string \<Rightarrow> rule list \<Rightarrow> rule option" where
  "rule_named n rs = find (\<lambda>r. r_Name r = n) rs"

definition rule_by_line :: "rule \<Rightarrow> bool" where
  "rule_by_line r \<longleftrightarrow> r_Users r = [] \<and> r_Databases r = []
     \<and> (case r_SQLPattern r of Some re \<Rightarrow> anchor_free re \<and> newline_free re | None \<Rightarrow> False)"

lemma dotted_rules:
  "map_option rule_by_line (Option.bind DefaultRules (rule_named ''privesc-grant'')) = Some True"
  "map_option rule_by_line (Option.bind DefaultPostgresRules (rule_named ''privesc-grant'')) = Some True"
  "map_option rule_by_line (Option.bind DefaultPostgresRules (rule_named ''exfil-copy-file'')) = Some True"
  by code_simp+

lemma dotted_rules_find:
  "map_option (rule_finds [''GRANT r TO'']) (Option.bind DefaultRules (rule_named ''privesc-grant'')) = Some True"
  "map_option (rule_finds [''GRANT r TO'']) (Option.bind DefaultPostgresRules (rule_named ''privesc-grant''))
     = Some True"
  "map_option (rule_finds [raw ''COPY t TO ~'']) (Option.bind DefaultPostgresRules (rule_named ''exfil-copy-file''))
     = Some True"
  by code_simp+

lemma rule_by_line_matches:
  "rule_by_line r \<Longrightarrow> rule_matches fold_rune r (a @ CHR 0x0A # b) user db
     \<longleftrightarrow> rule_matches fold_rune r a user db \<or> rule_matches fold_rune r b user db"
  by (auto simp: rule_by_line_def rule_matches_def MatchString_lines split: option.splits)

lemma rule_finds_matches: "rule_finds [s] r \<Longrightarrow> rule_matches fold_rune r s user db"
  by (auto simp: rule_finds_def rule_matches_def split: option.splits)

text \<open>
  C38: the rules for \<open>GRANT\<close> and \<open>COPY\<close> use \<open>.+\<close>, and a dot does not match a line break: whatever the text,
  these rules look at each of its lines on its own. They find their words on one line, and find nothing in
  a statement written over several lines none of which has all the words, which means the same to the server.
\<close>

theorem dotted_rules_see_lines:
  "\<exists>my pg grant pg_grant copy. DefaultRules = Some my \<and> DefaultPostgresRules = Some pg
     \<and> rule_named ''privesc-grant'' my = Some grant \<and> rule_named ''privesc-grant'' pg = Some pg_grant
     \<and> rule_named ''exfil-copy-file'' pg = Some copy
     \<and> (\<forall>user db. rule_matches fold_rune grant ''GRANT r TO'' user db
          \<and> rule_matches fold_rune pg_grant ''GRANT r TO'' user db
          \<and> rule_matches fold_rune copy (raw ''COPY t TO ~'') user db)
     \<and> list_all (\<lambda>r. \<forall>a b user db. rule_matches fold_rune r (a @ CHR 0x0A # b) user db
          \<longleftrightarrow> rule_matches fold_rune r a user db \<or> rule_matches fold_rune r b user db) [grant, pg_grant, copy]"
proof -
  obtain my pg where sets: "DefaultRules = Some my" "DefaultPostgresRules = Some pg"
    using sql_rules_case_blind by auto
  moreover obtain grant pg_grant copy where r: "rule_named ''privesc-grant'' my = Some grant"
      "rule_named ''privesc-grant'' pg = Some pg_grant" "rule_named ''exfil-copy-file'' pg = Some copy"
      "rule_by_line grant" "rule_by_line pg_grant" "rule_by_line copy"
    using dotted_rules unfolding sets by auto
  moreover have "rule_finds [''GRANT r TO''] grant" "rule_finds [''GRANT r TO''] pg_grant"
      "rule_finds [raw ''COPY t TO ~''] copy"
    using dotted_rules_find r(1-3) unfolding sets by simp_all
  ultimately show ?thesis
    using rule_by_line_matches rule_finds_matches
    by (intro exI [of _ my] exI [of _ pg] exI [of _ grant] exI [of _ pg_grant] exI [of _ copy]) simp
qed

end
