(* ===== verification/RegexpFuel.thy ===== *)
theory RegexpFuel
  imports RegexpParse
begin

text \<open>
  The fuel \<open>Compile\<close> gives its parser is enough for every pattern: more fuel never changes the result, so a
  \<open>None\<close> is a pattern that does not parse and not a parser that ran dry.
\<close>

section \<open>What the parser consumes\<close>

text \<open>What each part of the parser leaves is shorter than what it was given.\<close>

lemma class_char_shorter: "class_char s = Some (r, s') \<Longrightarrow> length s' < length s"
  by (cases s) (auto split: if_splits list.splits option.splits)

lemma class_items_shorter: "class_items n first s = Some (items, s') \<Longrightarrow> length s' < length s"
proof (induction n arbitrary: first s items s')
  case (Suc n)
  have s: "s \<noteq> []" using Suc.prems by auto
  then have tl: "length (tl s) < length s" "length (drop 2 s) < length s" by auto
  consider "s' = tl s"
    | is1 where "class_items n False (drop 2 s) = Some (is1, s')"
    | lo s1 is1 where "class_char s = Some (lo, s1)" "class_items n False s1 = Some (is1, s')"
    | lo s1 hi s2 is1 where "class_char s = Some (lo, s1)" "class_char (tl s1) = Some (hi, s2)"
        "class_items n False s2 = Some (is1, s')"
  proof (cases "hd s = CHR '']'' \<and> \<not> first")
    case True
    with Suc.prems s that(1) show thesis by (simp only: class_items.simps if_False if_True) simp
  next
    case c1: False
    show thesis
    proof (cases "hd s = backslash \<and> tl s \<noteq> [] \<and> perl_class (hd (tl s)) \<noteq> None")
      case True
      with Suc.prems s c1 show thesis
        by (simp only: class_items.simps if_False if_True)
          (auto split: if_splits option.splits bool.splits simp: bind_eq_Some_conv intro: that(2))
    next
      case False
      with Suc.prems s c1 show thesis
        by (simp only: class_items.simps if_False if_True)
          (auto split: if_splits simp: bind_eq_Some_conv intro: that(3,4))
    qed
  qed
  then show ?case
  proof cases
    case 1
    with tl show ?thesis by simp
  next
    case 2
    with Suc.IH [OF 2] tl show ?thesis by simp
  next
    case 3
    with Suc.IH [OF 3(2)] class_char_shorter [OF 3(1)] show ?thesis by simp
  next
    case 4
    with Suc.IH [OF 4(3)] class_char_shorter [OF 4(1)] class_char_shorter [OF 4(2)] show ?thesis by simp
  qed
qed simp

lemma parse_class_shorter: "parse_class fc s = Some (re, s') \<Longrightarrow> length s' < length s"
  by (auto simp: parse_class_def Let_def bind_eq_Some_conv simp del: class_items.simps split: if_splits
      dest!: class_items_shorter)

lemma digits_shorter: "length (snd (digits s n)) \<le> length s"
  by (induction s n rule: digits.induct) auto

lemma parse_int_shorter: "parse_int s = Some (n, s') \<Longrightarrow> length s' \<le> length s"
  using digits_shorter [of s 0] by (auto simp: parse_int_def split: if_splits)

lemma parse_repeat_shorter: "parse_repeat s = Some (lo, hi, s') \<Longrightarrow> length s' \<le> length s"
  by (fastforce simp: parse_repeat_def split: if_splits Option.bind_splits dest: parse_int_shorter)

lemma parse_quantifier_shorter: "parse_quantifier re s = Some (re', s') \<Longrightarrow> length s' \<le> length s"
  by (fastforce simp: parse_quantifier_def Let_def split: if_splits Option.bind_splits
      dest: parse_repeat_shorter)

lemma class_items_fuel: "length s < n \<Longrightarrow> class_items (Suc n) first s = class_items n first s"
proof (induction n arbitrary: first s)
  case (Suc n)
  show ?case
  proof (cases "s = []")
    case False
    then have d: "class_items (Suc n) False (drop 2 s) = class_items n False (drop 2 s)"
      using Suc.prems by (intro Suc.IH) (cases s; simp)
    have c: "class_items (Suc n) False s1 = class_items n False s1"
      if "class_char s = Some (lo, s1)" for lo s1
      using class_char_shorter [OF that] Suc.prems by (intro Suc.IH) simp
    have h: "class_items (Suc n) False s2 = class_items n False s2"
      if "class_char s = Some (lo, s1)" "class_char (tl s1) = Some (hi, s2)" for lo s1 hi s2
      using class_char_shorter [OF that(1)] class_char_shorter [OF that(2)] Suc.prems by (intro Suc.IH) simp
    show ?thesis
      unfolding class_items.simps(2) [of "Suc n" first s] class_items.simps(2) [of n first s] d
      by (intro if_cong refl Option.bind_cong)
        (auto simp del: class_items.simps simp: c h split: prod.splits intro!: Option.bind_cong)
  qed simp
qed simp

lemma is_quantifier_Nil [simp]: "\<not> is_quantifier []"
  by (simp add: is_quantifier_def)

lemma parse_shorter:
  "(\<forall>fc s re s'. parse_alternation n fc s = Some (re, s') \<longrightarrow> length s' \<le> length s)
   \<and> (\<forall>fc s re fc' s'. parse_concatenation n fc s = Some (re, fc', s') \<longrightarrow> length s' \<le> length s)
   \<and> (\<forall>fc s re s'. parse_atom n fc s = Some (re, s') \<longrightarrow> length s' < length s)"
proof (induction n)
  case (Suc n)
  then have A: "parse_alternation n fc s = Some (re, s') \<Longrightarrow> length s' \<le> length s"
    and C: "parse_concatenation n fc s = Some (re, fc', s') \<Longrightarrow> length s' \<le> length s"
    and T: "parse_atom n fc s = Some (re, s') \<Longrightarrow> length s' < length s" for fc s re fc' s'
    by blast+
  have "length s' \<le> length s" if "parse_alternation (Suc n) fc s = Some (re, s')" for fc s re s'
    using that by (fastforce simp: bind_eq_Some_conv split: if_splits dest: A C)
  moreover have "length s' \<le> length s" if "parse_concatenation (Suc n) fc s = Some (re, fc', s')" for fc s re fc' s'
    using that
    by (fastforce simp: bind_eq_Some_conv split: if_splits dest: T C parse_quantifier_shorter)
  moreover have "length s' < length s" if "parse_atom (Suc n) fc s = Some (re, s')" for fc s re s'
  proof -
    have "s \<noteq> []" using that by auto
    then have sh: "length (tl s) < length s" "length (drop 3 s) < length s" by auto
    show ?thesis
    proof (cases "hd s = CHR ''(''")
      case True
      with that \<open>s \<noteq> []\<close> obtain r s1 where
        "parse_alternation n fc (if take 3 s = ''(?:'' then drop 3 s else tl s) = Some (r, s1)" "s' = tl s1"
        by (simp only: parse_atom.simps if_False if_True) (auto simp: bind_eq_Some_conv split: if_splits)
      with A [OF this(1)] sh show ?thesis by (simp split: if_splits)
    next
      case False
      with that \<open>s \<noteq> []\<close> have "s' = tl s \<or> s' = tl (tl s) \<or> parse_class fc (tl s) = Some (re, s')"
        by (simp only: parse_atom.simps if_False if_True) (simp split: if_splits list.splits option.splits)
      with sh show ?thesis by (auto dest: parse_class_shorter)
    qed
  qed
  ultimately show ?case by blast
qed simp

section \<open>Enough fuel\<close>

text \<open>With three units a character and three more, one more unit changes nothing.\<close>

lemma parse_fuel:
  "(\<forall>fc s. 3 * length s + 3 \<le> n \<longrightarrow> parse_alternation (Suc n) fc s = parse_alternation n fc s)
   \<and> (\<forall>fc s. 3 * length s + 2 \<le> n \<longrightarrow> parse_concatenation (Suc n) fc s = parse_concatenation n fc s)
   \<and> (\<forall>fc s. 3 * length s + 1 \<le> n \<longrightarrow> parse_atom (Suc n) fc s = parse_atom n fc s)"
proof (induction n)
  case (Suc n)
  then have A: "3 * length s + 3 \<le> n \<Longrightarrow> parse_alternation (Suc n) fc s = parse_alternation n fc s"
    and C: "3 * length s + 2 \<le> n \<Longrightarrow> parse_concatenation (Suc n) fc s = parse_concatenation n fc s"
    and T: "3 * length s + 1 \<le> n \<Longrightarrow> parse_atom (Suc n) fc s = parse_atom n fc s" for fc s
    by blast+
  have "parse_alternation (Suc (Suc n)) fc s = parse_alternation (Suc n) fc s"
    if "3 * length s + 3 \<le> Suc n" for fc s
  proof -
    have c: "parse_concatenation (Suc n) fc s = parse_concatenation n fc s" using that by (intro C) simp
    have a: "parse_alternation (Suc n) fc' (tl s1) = parse_alternation n fc' (tl s1)"
      if "parse_concatenation n fc s = Some (re, fc', s1)" "s1 \<noteq> []" for re fc' s1
    proof -
      have "length s1 \<le> length s" using that(1) parse_shorter by blast
      moreover have "length (tl s1) < length s1" using that(2) by simp
      ultimately show ?thesis using \<open>3 * length s + 3 \<le> Suc n\<close> by (intro A) linarith
    qed
    show ?thesis
      unfolding parse_alternation.simps(2) [of "Suc n" fc s] parse_alternation.simps(2) [of n fc s] c
      by (intro Option.bind_cong refl) (auto simp del: parse_alternation.simps simp: a split: prod.splits)
  qed
  moreover have "parse_concatenation (Suc (Suc n)) fc s = parse_concatenation (Suc n) fc s"
    if "3 * length s + 2 \<le> Suc n" for fc s
  proof (cases "s = []")
    case False
    have t: "parse_atom (Suc n) fc s = parse_atom n fc s" using that by (intro T) simp
    have i: "parse_concatenation (Suc n) True (drop 4 s) = parse_concatenation n True (drop 4 s)"
      using that False by (intro C) (cases s; simp)
    have c: "parse_concatenation (Suc n) fc s2 = parse_concatenation n fc s2"
      if "parse_atom n fc s = Some (at, s1)" "parse_quantifier at s1 = Some (re, s2)" for at s1 re s2
    proof -
      have "length s1 < length s" using that(1) parse_shorter by blast
      with parse_quantifier_shorter [OF that(2)] show ?thesis
        using \<open>3 * length s + 2 \<le> Suc n\<close> by (intro C) simp
    qed
    show ?thesis
      unfolding parse_concatenation.simps(2) [of "Suc n" fc s] parse_concatenation.simps(2) [of n fc s] t i
      by (intro if_cong refl Option.bind_cong)
        (auto simp del: parse_concatenation.simps simp: c split: prod.splits intro!: Option.bind_cong)
  qed simp
  moreover have "parse_atom (Suc (Suc n)) fc s = parse_atom (Suc n) fc s"
    if "3 * length s + 1 \<le> Suc n" for fc s
  proof (cases "s = []")
    case False
    have "length (if take 3 s = ''(?:'' then drop 3 s else tl s) < length s" using False by auto
    then have a: "parse_alternation (Suc n) fc (if take 3 s = ''(?:'' then drop 3 s else tl s)
        = parse_alternation n fc (if take 3 s = ''(?:'' then drop 3 s else tl s)"
      using that by (intro A) linarith
    show ?thesis unfolding parse_atom.simps a ..
  qed simp
  ultimately show ?case by blast
qed simp

lemma Compile_fuel:
  assumes "3 * length pattern + 4 \<le> n"
  shows "parse_alternation n False pattern = parse_alternation (3 * length pattern + 4) False pattern"
proof -
  let ?m = "3 * length pattern + 4"
  have "parse_alternation (k + ?m) False pattern = parse_alternation ?m False pattern" for k
  proof (induction k)
    case (Suc k)
    have "3 * length pattern + 3 \<le> k + ?m" by simp
    with parse_fuel [of "k + ?m"] have
      "parse_alternation (Suc (k + ?m)) False pattern = parse_alternation (k + ?m) False pattern" by blast
    with Suc.IH show ?case by (simp only: add_Suc)
  qed (simp only: add_0)
  from this [of "n - ?m"] assms show ?thesis by (simp only: le_add_diff_inverse2)
qed

end
