(* ===== verification/EngineTrace.thy ===== *)
theory EngineTrace
  imports Engine
begin

text \<open>
  Concurrent use of one engine (\<open>engine/engine.go\<close>). Calls of \<open>Evaluate\<close> and \<open>Decide\<close> copy the rules (and
  the sink) under the read lock and work on the copies after releasing it; \<open>Reload\<close> and \<open>SetSink\<close>
  run under the write lock. So the atomic steps are a write, the locked read that starts a call, and
  the rest of the call. Calls of any number of goroutines interleave.
\<close>

text \<open>A call that has read the engine and not yet returned: its query and its copies.\<close>

record 'w call =
  q_sql :: string
  q_user :: string
  q_database :: string
  q_meta :: query_meta
  c_rules :: "rule list"
  c_sink :: "'w event_sink option"
  c_version :: nat

text \<open>
  The shared engine, the calls under way and the world, with two histories: every rule set installed so
  far, oldest first, and the decisions returned, each with the number of rule sets installed when
  its call read the engine.
\<close>

record 'w system =
  eng :: "'w engine"
  calls :: "nat \<Rightarrow> 'w call option"
  world :: 'w
  installed :: "rule list list"
  returned :: "((string \<times> string \<times> string) \<times> decision \<times> nat) list"

inductive sys_step :: "(rune \<Rightarrow> rune) \<Rightarrow> 'w system \<Rightarrow> 'w system \<Rightarrow> bool" for fold_rune where
  reload: "sys_step fold_rune s
     (s\<lparr>eng := Reload rs (eng s), installed := installed s @ [rs]\<rparr>)"
| set_sink: "sys_step fold_rune s (s\<lparr>eng := SetSink snk (eng s)\<rparr>)"
| start: "calls s t = None \<Longrightarrow>
     sys_step fold_rune s (s\<lparr>calls := (calls s)(t \<mapsto>
       \<lparr>q_sql = sql, q_user = user, q_database = db, q_meta = meta,
        c_rules = rules (eng s), c_sink = sink (eng s), c_version = length (installed s)\<rparr>)\<rparr>)"
| finish: "calls s t = Some c \<Longrightarrow>
     evaluate_rules fold_rune (c_rules c) (c_sink c) (q_sql c) (q_user c) (q_database c) (q_meta c) (world s)
       = (d, w') \<Longrightarrow>
     sys_step fold_rune s (s\<lparr>calls := (calls s)(t := None), world := w',
       returned := returned s @ [((q_sql c, q_user c, q_database c), d, c_version c)]\<rparr>)"

definition initial :: "rule list \<Rightarrow> 'w \<Rightarrow> 'w system" where
  "initial rs w = \<lparr>eng = New rs, calls = Map.empty, world = w, installed = [rs], returned = []\<rparr>"

inductive reachable :: "(rune \<Rightarrow> rune) \<Rightarrow> 'w system \<Rightarrow> 'w system \<Rightarrow> bool" for fold_rune s0 where
  reach_init: "reachable fold_rune s0 s0"
| reach_step: "reachable fold_rune s0 s \<Longrightarrow> sys_step fold_rune s s' \<Longrightarrow> reachable fold_rune s0 s'"

text \<open>The invariant: every copy is a rule set that was installed, the latest at the time it was read.\<close>

definition version_ok :: "rule list list \<Rightarrow> nat \<Rightarrow> rule list \<Rightarrow> bool" where
  "version_ok h v rs \<longleftrightarrow> 0 < v \<and> v \<le> length h \<and> h ! (v - 1) = rs"

definition sys_inv :: "(rune \<Rightarrow> rune) \<Rightarrow> 'w system \<Rightarrow> bool" where
  "sys_inv fold_rune s \<longleftrightarrow>
     installed s \<noteq> [] \<and> rules (eng s) = last (installed s)
   \<and> (\<forall>t c. calls s t = Some c \<longrightarrow> version_ok (installed s) (c_version c) (c_rules c))
   \<and> (\<forall>((sql, user, db), d, v) \<in> set (returned s).
        0 < v \<and> v \<le> length (installed s)
        \<and> d = decide_rules fold_rune (installed s ! (v - 1)) sql user db)"

lemma version_ok_snoc: "version_ok h v rs \<Longrightarrow> version_ok (h @ [x]) v rs"
  by (auto simp: version_ok_def nth_append)

lemma version_ok_latest: "h \<noteq> [] \<Longrightarrow> version_ok h (length h) (last h)"
  by (simp add: version_ok_def last_conv_nth)

lemma fst_evaluate_rules:
  "fst (evaluate_rules fold_rune rs snk sql user db meta w) = decide_rules fold_rune rs sql user db"
  by (simp add: evaluate_rules_eq Let_def)

lemma sys_inv_initial: "sys_inv fold_rune (initial rs w)"
  by (simp add: sys_inv_def initial_def New_def)

lemma sys_inv_step:
  assumes "sys_step fold_rune s s'" and "sys_inv fold_rune s"
  shows "sys_inv fold_rune s'"
  using assms(1)
proof cases
  case (reload rs)
  with assms(2) show ?thesis
    by (auto simp: sys_inv_def Reload_def version_ok_snoc nth_append)
next
  case (set_sink snk)
  with assms(2) show ?thesis by (auto simp: sys_inv_def SetSink_def)
next
  case start
  with assms(2) show ?thesis by (auto simp: sys_inv_def version_ok_latest)
next
  case (finish t c d w')
  have "d = decide_rules fold_rune (c_rules c) (q_sql c) (q_user c) (q_database c)"
    using finish(3) by (metis fst_conv fst_evaluate_rules)
  with finish assms(2) show ?thesis
    by (auto simp: sys_inv_def version_ok_def split: if_splits)
qed

lemma sys_inv_reachable: "reachable fold_rune (initial rs w) s \<Longrightarrow> sys_inv fold_rune s"
  by (induction rule: reachable.induct) (auto intro: sys_inv_initial sys_inv_step)

text \<open>
  C6: under any interleaving of evaluations, reloads and sink changes, every decision that is returned is
  the decision of one rule set: the latest that was installed when its call read the engine, never a mix
  of two and never one that was not installed. The calls still under way hold such a rule set too.
\<close>

theorem decisions_from_one_rule_set:
  assumes "reachable fold_rune (initial rs w) s"
  shows "(\<forall>((sql, user, db), d, v) \<in> set (returned s).
           0 < v \<and> v \<le> length (installed s)
           \<and> d = Decide fold_rune (New (installed s ! (v - 1)) :: 'w engine) sql user db)
       \<and> (\<forall>t c. calls s t = Some c \<longrightarrow>
           0 < c_version c \<and> c_version c \<le> length (installed s)
           \<and> c_rules c = installed s ! (c_version c - 1))
       \<and> rules (eng s) = last (installed s)"
  using sys_inv_reachable [OF assms] by (auto simp: sys_inv_def version_ok_def Decide_def New_def)

theorem decisions_from_one_rule_set_witness:
  "\<exists>s. reachable ascii_fold (initial [] (0 :: nat)) s
     \<and> returned s = [((''q'', ''u'', ''d''), \<lparr>d_Action = ActionAllow, d_Rule = ''default-allow''\<rparr>, 1)]
     \<and> installed s = [[], [\<lparr>r_Name = ''r'', r_Action = ActionBlock, r_SQLPattern = None,
                            r_Users = [], r_Databases = []\<rparr>]]
     \<and> rules (eng s) = last (installed s)"
proof -
  let ?r = "\<lparr>r_Name = ''r'', r_Action = ActionBlock, r_SQLPattern = None, r_Users = [], r_Databases = []\<rparr>"
  let ?meta = "\<lparr>Source = [], ConnID = 0, EventTime = 0, Seq = 0, TxnStatus = [], Tokens = [], Result = []\<rparr>"
  define s0 where "s0 = initial [] (0 :: nat)"
  define c :: "nat call" where "c = \<lparr>q_sql = ''q'', q_user = ''u'', q_database = ''d'', q_meta = ?meta,
    c_rules = rules (eng s0), c_sink = sink (eng s0), c_version = length (installed s0)\<rparr>"
  define s1 where "s1 = s0\<lparr>calls := (calls s0)(0 \<mapsto> c)\<rparr>"
  define s2 where "s2 = s1\<lparr>eng := Reload [?r] (eng s1), installed := installed s1 @ [[?r]]\<rparr>"
  define d where "d = \<lparr>d_Action = ActionAllow, d_Rule = ''default-allow''\<rparr>"
  define s3 where "s3 = s2\<lparr>calls := (calls s2)(0 := None), world := 0,
    returned := returned s2 @ [((q_sql c, q_user c, q_database c), d, c_version c)]\<rparr>"
  note defs = s0_def s1_def s2_def s3_def c_def d_def initial_def New_def Reload_def
  have "sys_step ascii_fold s0 s1"
    unfolding s1_def c_def by (rule sys_step.start) (simp add: s0_def initial_def)
  moreover have "sys_step ascii_fold s1 s2" unfolding s2_def by (rule sys_step.reload)
  moreover have "sys_step ascii_fold s2 s3"
    unfolding s3_def by (rule sys_step.finish) (simp_all add: defs)
  ultimately have r: "reachable ascii_fold (initial [] 0) s3"
    unfolding s0_def [symmetric] by (meson reach_init reach_step)
  from decisions_from_one_rule_set [OF r] have "rules (eng s3) = last (installed s3)" by blast
  with r show ?thesis by (intro exI [of _ s3]) (simp add: defs)
qed

end
