(* ===== verification/Utf8Tokens.thy ===== *)
theory Utf8Tokens
  imports Regexp
begin

text \<open>
  What the tokens of a decoded string look like: an ASCII rune comes from its own byte, an invalid byte is
  a \<open>RuneError\<close> of width 1, and any other rune comes from bytes above 127. Patterns built from ASCII
  literals and classes consume ASCII only, so what they find in a string is ASCII text.
\<close>

section \<open>Tokens of a decoded string\<close>

definition proper_token :: "token \<Rightarrow> bool" where
  "proper_token t \<longleftrightarrow> (case t of (r, b) \<Rightarrow>
     (0 \<le> r \<and> r < 128 \<and> b = [word_of_int r])
   \<or> (r = RuneError \<and> length b = 1)
   \<or> (128 \<le> r \<and> length b \<noteq> 1 \<and> list_all (\<lambda>x. 128 \<le> uint x) b
       \<and> (r = 0x2028 \<longrightarrow> b = [0xE2, 0x80, 0xA8]) \<and> (r = 0x2029 \<longrightarrow> b = [0xE2, 0x80, 0xA9])))"

lemma byte_at_Cons_Suc: "byte_at (b # bs) (Suc i) = byte_at bs i"
  by (simp add: byte_at_def)

lemma cont_byte_at: "cont (byte_at bs 0) \<Longrightarrow> \<exists>b t. bs = b # t \<and> byte_at bs 0 = uint b"
  by (cases bs) (auto simp: byte_at_def cont_def)

lemma uint_eqI: "uint (x :: byte) = n \<Longrightarrow> x = word_of_int n"
  by auto

lemma proper_2:
  assumes "0xC2 \<le> uint a" "uint a \<le> 0xDF" "cont (uint b)"
  shows "proper_token ((uint a - 0xC0) * 64 + (uint b - 0x80), [a, b])"
  using assms by (simp add: proper_token_def cont_def)

lemma base64_unique:
  assumes "x * 4096 + y * 64 + z = (x' :: int) * 4096 + y' * 64 + z'"
    and "0 \<le> y" "y < 64" "0 \<le> z" "z < 64" "0 \<le> y'" "y' < 64" "0 \<le> z'" "z' < 64"
  shows "x = x' \<and> y = y' \<and> z = z'"
proof -
  have "x = x'"
  proof (rule ccontr)
    assume "x \<noteq> x'"
    then consider "x + 1 \<le> x'" | "x' + 1 \<le> x" by linarith
    then show False using assms by cases linarith+
  qed
  moreover from this have "y = y'" using assms by linarith
  ultimately show ?thesis using assms(1) by simp
qed

lemma base64_ge:
  "1 \<le> x \<Longrightarrow> 0 \<le> y \<Longrightarrow> 0 \<le> z \<Longrightarrow> (128 :: int) \<le> x * 4096 + y * 64 + z"
  "1 \<le> x \<Longrightarrow> 0 \<le> y \<Longrightarrow> 0 \<le> z \<Longrightarrow> 0 \<le> u \<Longrightarrow> (0x10000 :: int) \<le> x * 262144 + y * 4096 + z * 64 + u"
  by linarith+

lemma proper_3:
  assumes "0xE0 \<le> uint a" "uint a \<le> 0xEF" "cont (uint b)" "cont (uint c)" "uint a = 0xE0 \<longrightarrow> 0xA0 \<le> uint b"
  shows "proper_token ((uint a - 0xE0) * 4096 + (uint b - 0x80) * 64 + (uint c - 0x80), [a, b, c])"
proof -
  let ?r = "(uint a - 0xE0) * 4096 + (uint b - 0x80) * 64 + (uint c - 0x80)"
  have bounds: "0 \<le> uint b - 0x80" "uint b - 0x80 < 64" "0 \<le> uint c - 0x80" "uint c - 0x80 < 64"
    using assms(3,4) unfolding cont_def by linarith+
  have r: "128 \<le> ?r"
  proof (cases "uint a = 0xE0")
    case True
    with assms(5) bounds show ?thesis by simp
  next
    case False
    with assms(1) have "1 \<le> uint a - 0xE0" by linarith
    then show ?thesis using bounds by (intro base64_ge)
  qed
  have low: "a = 0xE2 \<and> b = 0x80 \<and> c = word_of_int z"
    if "?r = 2 * 4096 + 0 * 64 + (z - 0x80)" "0x80 \<le> z" "z < 0xC0" for z
  proof -
    have "uint a - 0xE0 = 2 \<and> uint b - 0x80 = 0 \<and> uint c - 0x80 = z - 0x80"
      using that bounds by (intro base64_unique) auto
    then have "uint a = 0xE2" "uint b = 0x80" "uint c = z" by simp_all
    then show ?thesis by (auto dest!: uint_eqI)
  qed
  from low [of "0xA8"] low [of "0xA9"] have
    "?r = 0x2028 \<Longrightarrow> [a, b, c] = [0xE2, 0x80, 0xA8]" "?r = 0x2029 \<Longrightarrow> [a, b, c] = [0xE2, 0x80, 0xA9]"
    by simp_all
  moreover have "list_all (\<lambda>x. 128 \<le> uint x) [a, b, c]"
    using assms(1,3,4) by (simp add: cont_def)
  ultimately show ?thesis using r unfolding proper_token_def by simp
qed

lemma proper_4:
  assumes "0xF0 \<le> uint a" "uint a \<le> 0xF4" "cont (uint b)" "cont (uint c)" "cont (uint d)"
    "uint a = 0xF0 \<longrightarrow> 0x90 \<le> uint b"
  shows "proper_token ((uint a - 0xF0) * 262144 + (uint b - 0x80) * 4096 + (uint c - 0x80) * 64 + (uint d - 0x80),
    [a, b, c, d])"
proof -
  let ?r = "(uint a - 0xF0) * 262144 + (uint b - 0x80) * 4096 + (uint c - 0x80) * 64 + (uint d - 0x80)"
  have bounds: "0 \<le> uint b - 0x80" "0 \<le> uint c - 0x80" "0 \<le> uint d - 0x80"
    using assms(3-5) unfolding cont_def by linarith+
  have r: "0x10000 \<le> ?r"
  proof (cases "uint a = 0xF0")
    case True
    with assms(6) have "16 \<le> uint b - 0x80" by simp
    with True bounds show ?thesis by simp
  next
    case False
    with assms(1) have "1 \<le> uint a - 0xF0" by linarith
    then show ?thesis using bounds by (intro base64_ge)
  qed
  then have "?r \<noteq> 0x2028" "?r \<noteq> 0x2029" "128 \<le> ?r" by linarith+
  moreover have "list_all (\<lambda>x. 128 \<le> uint x) [a, b, c, d]"
    using assms(1,3-5) by (simp add: cont_def)
  ultimately show ?thesis unfolding proper_token_def by simp
qed

lemma byte_at_Cons [simp]:
  "byte_at (b # bs) 1 = byte_at bs 0" "byte_at (b # bs) 2 = byte_at bs 1" "byte_at (b # bs) 3 = byte_at bs 2"
  by (simp_all add: byte_at_def numeral_eq_Suc)

lemma DecodeRune_proper:
  assumes "bs \<noteq> []"
  shows "proper_token (fst (DecodeRune bs), take (snd (DecodeRune bs)) bs)"
proof -
  obtain a t where bs: "bs = a # t" using assms by (cases bs) auto
  define p1 p2 p3 where p: "p1 = byte_at t 0" "p2 = byte_at t 1" "p3 = byte_at t 2"
  let ?c2 = "0xC2 \<le> uint a \<and> uint a \<le> 0xDF \<and> cont p1"
  let ?c3 = "0xE0 \<le> uint a \<and> uint a \<le> 0xEF \<and> cont p1 \<and> (uint a = 0xE0 \<longrightarrow> 0xA0 \<le> p1)
    \<and> (uint a = 0xED \<longrightarrow> p1 \<le> 0x9F) \<and> cont p2"
  let ?c4 = "0xF0 \<le> uint a \<and> uint a \<le> 0xF4 \<and> cont p1 \<and> (uint a = 0xF0 \<longrightarrow> 0x90 \<le> p1)
    \<and> (uint a = 0xF4 \<longrightarrow> p1 \<le> 0x8F) \<and> cont p2 \<and> cont p3"
  have D: "DecodeRune bs = (if uint a < 0x80 then (uint a, 1)
     else if ?c2 then ((uint a - 0xC0) * 64 + (p1 - 0x80), 2)
     else if ?c3 then ((uint a - 0xE0) * 4096 + (p1 - 0x80) * 64 + (p2 - 0x80), 3)
     else if ?c4 then ((uint a - 0xF0) * 262144 + (p1 - 0x80) * 4096 + (p2 - 0x80) * 64 + (p3 - 0x80), 4)
     else (RuneError, 1))"
    by (simp only: bs DecodeRune_def Let_def byte_at_Cons byte_at_Cons_0 p)
  consider "uint a < 0x80" | "\<not> uint a < 0x80" "?c2" | "\<not> uint a < 0x80" "\<not> ?c2" "?c3"
    | "\<not> uint a < 0x80" "\<not> ?c2" "\<not> ?c3" "?c4" | "\<not> uint a < 0x80" "\<not> ?c2" "\<not> ?c3" "\<not> ?c4"
    by blast
  then show ?thesis
  proof cases
    case 1
    then show ?thesis unfolding D by (simp add: bs proper_token_def)
  next
    case 2
    then obtain b u where t: "t = b # u" "p1 = uint b" using cont_byte_at p(1) by metis
    have "DecodeRune bs = ((uint a - 0xC0) * 64 + (uint b - 0x80), 2)"
      unfolding D if_not_P [OF 2(1)] if_P [OF 2(2)] unfolding t(2) ..
    with 2 proper_2 [of a b] show ?thesis by (simp add: bs t)
  next
    case 3
    then obtain b u where t: "t = b # u" "p1 = uint b" using cont_byte_at p(1) by metis
    with 3 obtain c v where u: "u = c # v" "p2 = uint c" using cont_byte_at p(2) byte_at_Cons(1) by metis
    have "DecodeRune bs = ((uint a - 0xE0) * 4096 + (uint b - 0x80) * 64 + (uint c - 0x80), 3)"
      unfolding D if_not_P [OF 3(1)] if_not_P [OF 3(2)] if_P [OF 3(3)] unfolding t(2) u(2) ..
    with 3 proper_3 [of a b c] show ?thesis by (simp add: bs t u)
  next
    case 4
    then obtain b u where t: "t = b # u" "p1 = uint b" using cont_byte_at p(1) by metis
    with 4 obtain c v where u: "u = c # v" "p2 = uint c" using cont_byte_at p(2) byte_at_Cons(1) by metis
    with 4 obtain d w where v: "v = d # w" "p3 = uint d"
      using cont_byte_at p(3) byte_at_Cons(1,2) t by metis
    have "DecodeRune bs
        = ((uint a - 0xF0) * 262144 + (uint b - 0x80) * 4096 + (uint c - 0x80) * 64 + (uint d - 0x80), 4)"
      unfolding D if_not_P [OF 4(1)] if_not_P [OF 4(2)] if_not_P [OF 4(3)] if_P [OF 4(4)]
      unfolding t(2) u(2) v(2) ..
    with 4 proper_4 [of a b c d] show ?thesis by (simp add: bs t u v)
  next
    case 5
    then have "DecodeRune bs = (RuneError, 1)"
      unfolding D if_not_P [OF 5(1)] if_not_P [OF 5(2)] if_not_P [OF 5(3)] if_not_P [OF 5(4)] by simp
    then show ?thesis by (simp add: bs proper_token_def)
  qed
qed

lemma runes_proper: "t \<in> set (runes bs) \<Longrightarrow> proper_token t"
proof (induction bs rule: runes.induct)
  case (1 bs)
  then show ?case using DecodeRune_proper [of bs]
    by (cases "bs = []") (auto simp: runes.simps [of bs])
qed

section \<open>Patterns of ASCII text\<close>

fun ascii_only :: "regexp \<Rightarrow> bool" where
  "ascii_only (Literal fc r) \<longleftrightarrow> \<not> fc \<and> r < 128"
| "ascii_only (CharClass fc neg rs) \<longleftrightarrow> \<not> fc \<and> \<not> neg \<and> list_all (\<lambda>(lo, hi). hi < 128) rs"
| "ascii_only AnyChar \<longleftrightarrow> False"
| "ascii_only AnyCharNotNL \<longleftrightarrow> False"
| "ascii_only (Concat a b) \<longleftrightarrow> ascii_only a \<and> ascii_only b"
| "ascii_only (Alternate a b) \<longleftrightarrow> ascii_only a \<and> ascii_only b"
| "ascii_only (Quest g a) \<longleftrightarrow> ascii_only a"
| "ascii_only (Star g a) \<longleftrightarrow> ascii_only a"
| "ascii_only re \<longleftrightarrow> True"

definition ascii_tokens :: "token list \<Rightarrow> bool" where
  "ascii_tokens ts \<longleftrightarrow> list_all (\<lambda>t. fst t < 128) ts"

lemma ascii_tokens_simps [simp]:
  "ascii_tokens []" "ascii_tokens (t # ts) \<longleftrightarrow> fst t < 128 \<and> ascii_tokens ts"
  "ascii_tokens (as @ bs) \<longleftrightarrow> ascii_tokens as \<and> ascii_tokens bs"
  by (simp_all add: ascii_tokens_def)

lemma match_ascii_only:
  "match_re re c c' \<Longrightarrow> ascii_only re \<Longrightarrow> \<exists>ts. snd c = ts @ snd c' \<and> ascii_tokens ts"
proof (induction rule: match_re.induct)
  case (literal fc r x p b ts)
  then have "snd (p, (x, b) # ts) = [(x, b)] @ snd (Some x, ts) \<and> ascii_tokens [(x, b)]"
    by (simp add: is_literal_def)
  then show ?case by blast
next
  case (char_class fc neg rs x p b ts)
  then have "x < 128"
    by (auto simp: in_class_def in_ranges_def list_ex_iff list_all_iff)
  then have "snd (p, (x, b) # ts) = [(x, b)] @ snd (Some x, ts) \<and> ascii_tokens [(x, b)]" by simp
  then show ?case by blast
next
  case (concat a c1 c2 b c3)
  then obtain ts us where "snd c1 = (ts @ us) @ snd c3 \<and> ascii_tokens (ts @ us)" by auto
  then show ?case by blast
next
  case (again a c1 c2 g c3)
  then obtain ts us where "snd c1 = (ts @ us) @ snd c3 \<and> ascii_tokens (ts @ us)" by auto
  then show ?case by blast
qed auto

lemma all_from_ascii:
  "m \<in> set (all_from re just p ts) \<Longrightarrow> ascii_only re \<Longrightarrow> ascii_tokens m \<and> set m \<subseteq> set ts"
proof (induction re just p ts rule: all_from.induct)
  case (1 re just p ts)
  show ?case
  proof (cases "find_from re p ts")
    case None
    with 1(3) show ?thesis by (simp add: all_from.simps [of re just p ts])
  next
    case (Some found)
    then obtain skipped p' ts' where f: "find_from re p ts = Some (skipped, (p', ts'))" by (cases found) auto
    obtain us where us: "ts = skipped @ us @ ts'" "ascii_tokens us"
      using find_from_Some [OF f] match_ascii_only [OF _ 1(4)] by fastforce
    show ?thesis
    proof (cases "length ts' = length ts")
      case True
      with 1(3) f consider "m = []" | t rest where "ts = t # rest" "m \<in> set (all_from re False (Some (fst t)) rest)"
        by (auto simp: all_from.simps [of re just p ts] split: list.splits if_splits)
      then show ?thesis
      proof cases
        case 2
        obtain r b where t: "t = (r, b)" by (cases t)
        have "ascii_tokens m \<and> set m \<subseteq> set rest"
          by (rule 1(1) [OF f refl refl True, of t rest r b]) (use 2 t 1(4) in simp_all)
        with 2(1) show ?thesis by auto
      qed simp
    next
      case False
      have "take (length ts - length skipped - length ts') (drop (length skipped) ts) = us" by (simp add: us(1))
      with False 1(3) f consider "m = us" | "m \<in> set (all_from re True p' ts')"
        by (auto simp: all_from.simps [of re just p ts])
      then show ?thesis
      proof cases
        case 2
        with 1(2) [OF f _ _ False] 1(4) us(1) show ?thesis by auto
      qed (use us in auto)
    qed
  qed
qed

lemma ascii_tokens_text:
  assumes "ascii_tokens m" and "set m \<subseteq> set (runes bs)"
  shows "ascii (str_of (concat (map snd m)))"
proof -
  have "ascii (str_of (snd t))" if "t \<in> set m" for t
  proof -
    have "proper_token t" using that assms(2) runes_proper by blast
    moreover have "fst t < 128" using that assms(1) by (simp add: ascii_tokens_def list_all_iff)
    ultimately obtain r where "0 \<le> r" "r < 128" "t = (r, [word_of_int r])"
      by (cases t) (auto simp: proper_token_def RuneError_def)
    then show ?thesis
      using uint_byte_of_char [of "char_of_byte (word_of_int r)"]
      by (simp add: str_of_def unsigned_of_int take_bit_int_eq_self)
  qed
  then show ?thesis by (induction m) simp_all
qed

lemma FindAllString_ascii: "ascii_only re \<Longrightarrow> m \<in> set (FindAllString re s) \<Longrightarrow> ascii m"
  using all_from_ascii ascii_tokens_text by (fastforce simp: FindAllString_def)

end
