(* ===== verification/Json.thy ===== *)
theory Json
  imports RegexpParse Utf8Tokens "HOL-Library.AList" "HOL-Library.List_Lexorder" "HOL-Library.Char_ord"
begin

text \<open>
  What the console client uses of package \<open>encoding/json\<close>: \<open>Marshal\<close> of a map from strings to strings,
  unsigned integers and non-empty string lists. A map is an association list with distinct keys; its
  members are written in the order of the keys. A reader of such objects after RFC 8259 is the
  reference the encoder is checked against.
\<close>

section \<open>Encoding\<close>

datatype json = JString string | JNumber "64 word" | JStrings "string list"

type_synonym json_object = "(string \<times> json) list"

definition dquote :: char where "dquote = CHR 0x22"

text \<open>The escapes of an ASCII character; the characters special in HTML are escaped too.\<close>

definition escape_ascii :: "rune \<Rightarrow> string" where
  "escape_ascii r =
     (if r = 0x22 \<or> r = 0x5C then [backslash, char_of r]
      else if r = 8 then [backslash, CHR ''b'']
      else if r = 12 then [backslash, CHR ''f'']
      else if r = 10 then [backslash, CHR ''n'']
      else if r = 13 then [backslash, CHR ''r'']
      else if r = 9 then [backslash, CHR ''t'']
      else if r < 32 \<or> r \<in> set [0x26, 0x3C, 0x3E] then backslash # ''u00'' @ hex2 (word_of_int r)
      else [char_of r])"

definition json_escape :: "token \<Rightarrow> string" where
  "json_escape t = (case t of (r, b) \<Rightarrow>
     if r < 128 then escape_ascii r
     else if r = RuneError \<and> length b = 1 then backslash # ''ufffd''
     else if r = 0x2028 then backslash # ''u2028''
     else if r = 0x2029 then backslash # ''u2029''
     else str_of b)"

definition json_quote :: "string \<Rightarrow> string" where
  "json_quote s = dquote # concat (map json_escape (runes (bytes_of s))) @ [dquote]"

fun commas :: "string list \<Rightarrow> string" where
  "commas [] = []"
| "commas [x] = x"
| "commas (x # y # xs) = x @ CHR '','' # commas (y # xs)"

fun json_value :: "json \<Rightarrow> string" where
  "json_value (JString s) = json_quote s"
| "json_value (JNumber n) = show_nat (unat n)"
| "json_value (JStrings ss) = CHR ''['' # commas (map json_quote ss) @ '']''"

definition json_member :: "string \<times> json \<Rightarrow> string" where
  "json_member m = json_quote (fst m) @ CHR '':'' # json_value (snd m)"

definition Marshal :: "json_object \<Rightarrow> string" where
  "Marshal obj = CHR ''{'' # commas (map json_member (sort_key fst obj)) @ ''}''"

section \<open>A reader\<close>

definition hex_val :: "char \<Rightarrow> int option" where
  "hex_val c =
     (let r = rune_of c in
      if 48 \<le> r \<and> r \<le> 57 then Some (r - 48)
      else if 97 \<le> r \<and> r \<le> 102 then Some (r - 87)
      else if 65 \<le> r \<and> r \<le> 70 then Some (r - 55) else None)"

fun hex_vals :: "string \<Rightarrow> int \<Rightarrow> int option" where
  "hex_vals [] acc = Some acc"
| "hex_vals (c # s) acc = (case hex_val c of Some v \<Rightarrow> hex_vals s (16 * acc + v) | None \<Rightarrow> None)"

text \<open>UTF-8 of a rune of the basic plane.\<close>

definition utf8 :: "rune \<Rightarrow> string" where
  "utf8 r =
     (if r < 0x80 then [char_of r]
      else if r < 0x800 then [char_of (0xC0 + r div 64), char_of (0x80 + r mod 64)]
      else [char_of (0xE0 + r div 4096), char_of (0x80 + r div 64 mod 64), char_of (0x80 + r mod 64)])"

definition unescape :: "char \<Rightarrow> char option" where
  "unescape c = map_of [(dquote, dquote), (backslash, backslash), (CHR ''/'', CHR ''/''),
     (CHR ''b'', CHR 0x08), (CHR ''f'', CHR 0x0C), (CHR ''n'', CHR 0x0A), (CHR ''r'', CHR 0x0D),
     (CHR ''t'', CHR 0x09)] c"

text \<open>The rest of a string, after the opening quote; pairs of surrogates are not read.\<close>

fun read_chars :: "string \<Rightarrow> (string \<times> string) option" where
  "read_chars [] = None"
| "read_chars (c # s) =
     (if c = dquote then Some ([], s)
      else if c = backslash then
        (case s of
           [] \<Rightarrow> None
         | e # s1 \<Rightarrow>
             if e = CHR ''u'' then
               (case (hex_vals (take 4 s1) 0, read_chars (drop 4 s1)) of
                  (Some r, Some (v, rest)) \<Rightarrow> if length s1 < 4 then None else Some (utf8 r @ v, rest)
                | _ \<Rightarrow> None)
             else (case (unescape e, read_chars s1) of
                  (Some x, Some (v, rest)) \<Rightarrow> Some (x # v, rest)
                | _ \<Rightarrow> None))
      else if rune_of c < 32 then None
      else map_option (\<lambda>(v, rest). (c # v, rest)) (read_chars s))"

definition read_string :: "string \<Rightarrow> (string \<times> string) option" where
  "read_string s = (if s \<noteq> [] \<and> hd s = dquote then read_chars (tl s) else None)"

fun read_strings :: "nat \<Rightarrow> string \<Rightarrow> (string list \<times> string) option" where
  "read_strings 0 s = None"
| "read_strings (Suc n) s = do {
     (x, s1) \<leftarrow> read_string s;
     if s1 \<noteq> [] \<and> hd s1 = CHR '','' then do { (xs, s2) \<leftarrow> read_strings n (tl s1); Some (x # xs, s2) }
     else if s1 \<noteq> [] \<and> hd s1 = CHR '']'' then Some ([x], tl s1) else None
   }"

definition read_value :: "string \<Rightarrow> (json \<times> string) option" where
  "read_value s =
     (if s = [] then None
      else if hd s = dquote then map_option (\<lambda>(x, s1). (JString x, s1)) (read_string s)
      else if hd s = CHR ''['' then map_option (\<lambda>(xs, s1). (JStrings xs, s1)) (read_strings (length s) (tl s))
      else if is_digit_char (hd s) then (case digits s 0 of (n, s1) \<Rightarrow>
        if n < 2 ^ 64 then Some (JNumber (of_nat n), s1) else None)
      else None)"

fun read_members :: "nat \<Rightarrow> string \<Rightarrow> (json_object \<times> string) option" where
  "read_members 0 s = None"
| "read_members (Suc n) s = do {
     (k, s1) \<leftarrow> read_string s;
     if s1 \<noteq> [] \<and> hd s1 = CHR '':'' then do {
       (v, s2) \<leftarrow> read_value (tl s1);
       if s2 \<noteq> [] \<and> hd s2 = CHR '','' then do { (ms, s3) \<leftarrow> read_members n (tl s2); Some ((k, v) # ms, s3) }
       else if s2 \<noteq> [] \<and> hd s2 = CHR ''}'' then Some ([(k, v)], tl s2) else None
     } else None
   }"

text \<open>A whole text; what is left behind the object must be empty.\<close>

definition read_object :: "string \<Rightarrow> json_object option" where
  "read_object s =
     (if s = [] \<or> hd s \<noteq> CHR ''{'' then None
      else if tl s = ''}'' then Some []
      else (case read_members (length s) (tl s) of Some (ms, []) \<Rightarrow> Some ms | _ \<Rightarrow> None))"

section \<open>Reading back what was written\<close>

text \<open>Invalid UTF-8 is replaced by U+FFFD byte for byte; nothing else changes.\<close>

definition scrub_token :: "token \<Rightarrow> string" where
  "scrub_token t = (if fst t = RuneError \<and> length (snd t) = 1 then utf8 RuneError else str_of (snd t))"

definition scrub :: "string \<Rightarrow> string" where
  "scrub s = concat (map scrub_token (runes (bytes_of s)))"

abbreviation prepend :: "string \<Rightarrow> (string \<times> string) option \<Rightarrow> (string \<times> string) option" where
  "prepend x \<equiv> map_option (\<lambda>(v, rest). (x @ v, rest))"

lemma prepend_prepend: "prepend x (prepend y r) = prepend (x @ y) r"
  by (cases r) auto

lemma read_quote: "read_chars (dquote # s) = Some ([], s)"
  by simp

lemma read_simple_escape:
  "e \<noteq> CHR ''u'' \<Longrightarrow> unescape e = Some x \<Longrightarrow> read_chars (backslash # e # s) = prepend [x] (read_chars s)"
  by (cases "read_chars s") (auto simp: dquote_def)

lemma simple_escapes:
  "list_all (\<lambda>(e, r). e \<noteq> CHR ''u'' \<and> unescape e = Some (char_of (r :: int)))
     [(CHR 0x22, 0x22), (backslash, 0x5C), (CHR ''b'', 8), (CHR ''f'', 12), (CHR ''n'', 10), (CHR ''r'', 13),
      (CHR ''t'', 9)]"
  by code_simp

lemma hex_escapes:
  "list_all (\<lambda>r. hex_vals (''00'' @ hex2 (word_of_int r)) 0 = Some r \<and> utf8 r = [char_of r]) ([0..31] @ [0x26, 0x3C, 0x3E])"
  by code_simp

lemma rune_of_char_of: "0 \<le> r \<Longrightarrow> r < 256 \<Longrightarrow> rune_of (char_of r) = r"
  by (simp add: rune_of_def)

lemma read_hex_escape:
  assumes "hex_vals (''00'' @ hex2 w) 0 = Some r"
  shows "read_chars (backslash # ''u00'' @ hex2 w @ s) = prepend (utf8 r) (read_chars s)"
  using assms by (cases "read_chars s") (auto simp: hex2_def dquote_def)

lemma read_escape_ascii:
  assumes "0 \<le> r" "r < 128"
  shows "read_chars (escape_ascii r @ s) = prepend [char_of r] (read_chars s)"
proof -
  consider e where "escape_ascii r = [backslash, e]" "e \<noteq> CHR ''u''" "unescape e = Some (char_of r)"
    | "r \<notin> set [0x22, 0x5C, 8, 12, 10, 13, 9]" "r < 32 \<or> r \<in> set [0x26, 0x3C, 0x3E]"
    | "r \<notin> set [0x22, 0x5C, 8, 12, 10, 13, 9]" "\<not> (r < 32 \<or> r \<in> set [0x26, 0x3C, 0x3E])"
  proof (cases "r \<in> set [0x22, 0x5C, 8, 12, 10, 13, 9]")
    case True
    have "char_of (0x22 :: int) = CHR 0x22" "char_of (0x5C :: int) = backslash" by code_simp+
    with True show thesis using simple_escapes that(1) by (auto simp: escape_ascii_def)
  qed (use that(2,3) in blast)
  then show ?thesis
  proof cases
    case (1 e)
    then show ?thesis by (simp add: read_simple_escape del: read_chars.simps)
  next
    case 2
    then have "r \<in> set ([0..31] @ [0x26, 0x3C, 0x3E])" using assms by auto
    with hex_escapes have h: "hex_vals (''00'' @ hex2 (word_of_int r)) 0 = Some r" "utf8 r = [char_of r]"
      unfolding list_all_iff by blast+
    with 2 read_hex_escape [OF h(1)] show ?thesis by (simp add: escape_ascii_def)
  next
    case 3
    have r: "rune_of (char_of r) = r" using assms by (simp add: rune_of_char_of)
    have "rune_of dquote = 0x22" "rune_of backslash = 0x5C" by code_simp+
    with 3 have "r \<noteq> rune_of dquote" "r \<noteq> rune_of backslash" by simp_all
    with r have "char_of r \<noteq> dquote" "char_of r \<noteq> backslash" by metis+
    with 3 r show ?thesis by (simp add: escape_ascii_def)
  qed
qed

lemma read_high_bytes:
  "list_all (\<lambda>x. 128 \<le> uint x) b \<Longrightarrow> read_chars (str_of b @ s) = prepend (str_of b) (read_chars s)"
proof (induction b)
  case Nil
  show ?case by (cases "read_chars s") simp_all
next
  case (Cons x b)
  have r: "rune_of (char_of_byte x) = uint x" using uint_byte_of_char [of "char_of_byte x"] by simp
  have "rune_of dquote = 0x22" "rune_of backslash = 0x5C" by code_simp+
  with r Cons.prems have "rune_of (char_of_byte x) \<noteq> rune_of dquote" "rune_of (char_of_byte x) \<noteq> rune_of backslash"
    by simp_all
  then have "char_of_byte x \<noteq> dquote" "char_of_byte x \<noteq> backslash" by metis+
  with r Cons show ?case by (simp add: str_of_def option.map_comp comp_def split_def)
qed

lemma read_token:
  assumes "proper_token t"
  shows "read_chars (json_escape t @ s) = prepend (scrub_token t) (read_chars s)"
proof -
  obtain r b where t: "t = (r, b)" by (cases t)
  from assms consider "0 \<le> r" "r < 128" "b = [word_of_int r]" | "r = RuneError" "length b = 1"
    | "128 \<le> r" "length b \<noteq> 1" "list_all (\<lambda>x. 128 \<le> uint x) b"
      "r = 0x2028 \<longrightarrow> b = [0xE2, 0x80, 0xA8]" "r = 0x2029 \<longrightarrow> b = [0xE2, 0x80, 0xA9]"
    unfolding proper_token_def t by auto
  then show ?thesis
  proof cases
    case 1
    have "char_of (int (nat r)) = char_of (nat r)" by (rule char_of_nat)
    with 1 have "str_of b = [char_of r]"
      by (simp add: str_of_def char_of_byte_def unsigned_of_int take_bit_int_eq_self)
    with 1 read_escape_ascii [OF 1(1,2)] show ?thesis
      by (simp add: t json_escape_def scrub_token_def RuneError_def)
  next
    case 2
    have "hex_vals ''fffd'' 0 = Some RuneError" by code_simp
    with 2 show ?thesis
      by (cases "read_chars s") (auto simp: t json_escape_def scrub_token_def dquote_def RuneError_def)
  next
    case 3
    have h: "hex_vals ''2028'' 0 = Some 0x2028" "utf8 0x2028 = str_of [0xE2, 0x80, 0xA8]"
      "hex_vals ''2029'' 0 = Some 0x2029" "utf8 0x2029 = str_of [0xE2, 0x80, 0xA9]" by code_simp+
    show ?thesis
    proof (cases "r = 0x2028 \<or> r = 0x2029")
      case True
      with 3 h show ?thesis
        by (cases "read_chars s") (auto simp: t json_escape_def scrub_token_def dquote_def RuneError_def)
    next
      case False
      with 3 read_high_bytes [OF 3(3)] show ?thesis
        by (simp add: t json_escape_def scrub_token_def)
    qed
  qed
qed

lemma read_tokens:
  "list_all proper_token ts \<Longrightarrow>
     read_chars (concat (map json_escape ts) @ s) = prepend (concat (map scrub_token ts)) (read_chars s)"
  by (induction ts) (simp_all add: read_token prepend_prepend option.map_id del: read_chars.simps)

lemma read_string_quote: "read_string (json_quote v @ rest) = Some (scrub v, rest)"
proof -
  have "list_all proper_token (runes (bytes_of v))" by (simp add: list_all_iff runes_proper)
  from read_tokens [OF this, of "dquote # rest"] show ?thesis
    by (simp add: read_string_def json_quote_def scrub_def read_quote del: read_chars.simps)
qed

lemma read_strings_commas:
  assumes "length vs \<le> n" and "vs \<noteq> []"
  shows "read_strings n (commas (map json_quote vs) @ CHR '']'' # rest) = Some (map scrub vs, rest)"
  using assms
proof (induction vs arbitrary: n rule: commas.induct)
  case (2 v)
  then obtain m where "n = Suc m" by (cases n) auto
  then show ?case by (simp add: read_string_quote)
next
  case (3 v w vs)
  then obtain m where n: "n = Suc m" by (cases n) auto
  with 3 have "read_strings m (commas (map json_quote (w # vs)) @ CHR '']'' # rest) = Some (map scrub (w # vs), rest)"
    by simp
  with n show ?case by (simp add: read_string_quote)
qed simp

lemma digits_show:
  assumes "rest = [] \<or> \<not> is_digit_char (hd rest)"
  shows "digits (show_nat n @ rest) 0 = (n, rest)"
proof -
  have d: "is_digit_char (digit_char k) \<and> nat (rune_of (digit_char k) - 48) = k" if "k < 10" for k
  proof -
    have "list_all (\<lambda>k. is_digit_char (digit_char k) \<and> nat (rune_of (digit_char k) - 48) = k) [0..<10]"
      by code_simp
    with that show ?thesis by (simp add: list_all_iff)
  qed
  have "digits (show_nat n @ s) acc = digits s (acc * 10 ^ length (show_nat n) + n)" for s acc
  proof (induction n arbitrary: s acc rule: show_nat.induct)
    case (1 n)
    show ?case
    proof (cases "n < 10")
      case True
      with d show ?thesis by (simp add: show_nat.simps [of n] algebra_simps)
    next
      case False
      with 1 [OF False] d [of "n mod 10"] show ?thesis
        by (simp add: show_nat.simps [of n] algebra_simps)
    qed
  qed
  from this [of rest 0] assms show ?thesis by (cases rest) simp_all
qed

lemma show_nat_hd: "\<exists>c s. show_nat n = c # s \<and> is_digit_char c"
proof (induction n rule: show_nat.induct)
  case (1 n)
  have "list_all (\<lambda>k. is_digit_char (digit_char k)) [0..<10]" by code_simp
  then have "is_digit_char (digit_char n)" if "n < 10" using that by (simp add: list_all_iff)
  with 1 show ?case by (cases "n < 10") (auto simp: show_nat.simps [of n])
qed

text \<open>A value as its reader sees it.\<close>

fun scrub_json :: "json \<Rightarrow> json" where
  "scrub_json (JString s) = JString (scrub s)"
| "scrub_json (JNumber n) = JNumber n"
| "scrub_json (JStrings ss) = JStrings (map scrub ss)"

lemma commas_length: "length vs \<le> length (commas (map json_quote vs))"
  by (induction vs rule: commas.induct) (simp_all add: json_quote_def)

lemma read_value_back:
  assumes "v \<noteq> JStrings []" and "rest = [] \<or> \<not> is_digit_char (hd rest)"
  shows "read_value (json_value v @ rest) = Some (scrub_json v, rest)"
proof (cases v)
  case (JString s)
  have "hd (json_quote s) = dquote" "json_quote s \<noteq> []" by (simp_all add: json_quote_def)
  with JString read_string_quote [of s rest] show ?thesis by (simp add: read_value_def)
next
  case (JNumber n)
  obtain c s where c: "show_nat (unat n) = c # s" "is_digit_char c" using show_nat_hd by blast
  have "\<not> is_digit_char dquote" "\<not> is_digit_char CHR ''[''" by code_simp+
  with c have "c \<noteq> dquote" "c \<noteq> CHR ''[''" by auto
  moreover have "unat n < 2 ^ 64" using unat_word64_lt [of n] by simp
  ultimately show ?thesis using c digits_show [OF assms(2), of "unat n"]
    by (simp add: JNumber read_value_def)
next
  case (JStrings ss)
  with assms(1) have ne: "ss \<noteq> []" by auto
  have "length ss \<le> length (json_value v @ rest)" using commas_length [of ss] by (simp add: JStrings)
  from read_strings_commas [OF this ne, of rest] show ?thesis
    by (simp add: JStrings read_value_def dquote_def)
qed

lemma read_members_back:
  assumes "length ms \<le> n" and "ms \<noteq> []" and "list_all (\<lambda>m. snd m \<noteq> JStrings []) ms"
  shows "read_members n (commas (map json_member ms) @ CHR ''}'' # rest)
     = Some (map (\<lambda>(k, v). (scrub k, scrub_json v)) ms, rest)"
proof -
  have e: "\<not> is_digit_char CHR '',''" "\<not> is_digit_char CHR ''}''" by code_simp+
  show ?thesis using assms
  proof (induction ms arbitrary: n)
    case (Cons m ms)
    then obtain k where n: "n = Suc k" "length ms \<le> k" by (cases n) auto
    obtain key v where m: "m = (key, v)" by (cases m)
    have jm: "json_member m = json_quote key @ CHR '':'' # json_value v" by (simp add: m json_member_def)
    have v: "v \<noteq> JStrings []" using Cons.prems m by simp
    note read = read_string_quote read_value_back [OF v]
    show ?case
    proof (cases ms)
      case Nil
      with m n e show ?thesis by (simp add: jm [unfolded m] read)
    next
      case (Cons a as)
      with n Cons.prems Cons.IH [of k] have "read_members k (commas (map json_member ms) @ CHR ''}'' # rest)
          = Some (map (\<lambda>(k, v). (scrub k, scrub_json v)) ms, rest)" by simp
      with Cons m n e show ?thesis by (simp add: jm [unfolded m] read)
    qed
  qed simp
qed

lemma read_object_Marshal:
  assumes "obj \<noteq> []" and "list_all (\<lambda>m. snd m \<noteq> JStrings []) obj"
  shows "read_object (Marshal obj) = Some (map (\<lambda>(k, v). (scrub k, scrub_json v)) (sort_key fst obj))"
proof -
  let ?ms = "sort_key fst obj"
  have ne: "?ms \<noteq> []" using assms(1) by (metis length_0_conv length_sort)
  have all: "list_all (\<lambda>m. snd m \<noteq> JStrings []) ?ms" using assms(2) by (simp add: list_all_iff)
  have len: "length xs \<le> length (commas xs)" if "list_all (\<lambda>x. x \<noteq> []) xs" for xs
    using that by (induction xs rule: commas.induct) (auto simp: Suc_le_eq)
  have "length ?ms \<le> length (commas (map json_member ?ms))"
    using len [of "map json_member ?ms"] by (simp add: list_all_iff json_member_def)
  moreover from this ne have "commas (map json_member ?ms) \<noteq> []"
    by (metis length_0_conv le_zero_eq list.size(3))
  ultimately show ?thesis
    using read_members_back [OF _ ne all, of "length (Marshal obj)" "[]"]
    by (simp add: read_object_def Marshal_def)
qed

definition valid_utf8 :: "string \<Rightarrow> bool" where
  "valid_utf8 s \<longleftrightarrow> list_all (\<lambda>(r, b). r \<noteq> RuneError \<or> length b \<noteq> 1) (runes (bytes_of s))"

lemma scrub_valid: "valid_utf8 s \<Longrightarrow> scrub s = s"
proof -
  assume "valid_utf8 s"
  then have m: "map scrub_token (runes (bytes_of s)) = map (\<lambda>t. str_of (snd t)) (runes (bytes_of s))"
    by (auto simp: valid_utf8_def list_all_iff scrub_token_def)
  have "scrub s = str_of (concat (map snd (runes (bytes_of s))))"
    unfolding scrub_def m by (simp add: str_of_def map_concat comp_def)
  then show ?thesis by (simp add: runes_bytes)
qed

lemma ascii_valid: "ascii s \<Longrightarrow> valid_utf8 s"
  by (fastforce simp: valid_utf8_def runes_of_ascii tokens_def ascii_def list_all_iff RuneError_def)

text \<open>The members of the text that was written, by their keys.\<close>

lemma map_of_sort_key: "distinct (map fst xs) \<Longrightarrow> map_of (sort_key fst xs) = map_of xs"
proof -
  assume d: "distinct (map fst xs)"
  moreover have "distinct (map fst (sort_key fst xs))"
    using d by (metis distinct_map distinct_sort inj_on_def set_sort)
  ultimately show ?thesis by (simp add: map_of_inject_set)
qed

lemma Marshal_members:
  assumes "obj \<noteq> []" and "list_all (\<lambda>m. snd m \<noteq> JStrings []) obj"
    and "distinct (map fst obj)" and "list_all (\<lambda>m. ascii (fst m)) obj"
  shows "\<exists>ms. read_object (Marshal obj) = Some ms \<and> map_of ms = map_option scrub_json \<circ> map_of obj"
proof -
  have "map (\<lambda>(k, v). (scrub k, scrub_json v)) (sort_key fst obj)
      = map (\<lambda>(k, v). (k, scrub_json v)) (sort_key fst obj)"
    using assms(4) by (auto simp: list_all_iff scrub_valid ascii_valid)
  with read_object_Marshal [OF assms(1,2)] map_of_sort_key [OF assms(3)] show ?thesis
    by (simp add: map_of_map)
qed

end
