(* ===== verification/Console.thy ===== *)
theory Console
  imports Engine Json
begin

text \<open>
  The client of the management console (\<open>console/client.go\<close>): the event sink, the conversion and the polling
  of rules, and the heartbeat. The HTTP exchange, the JSON decoder, \<open>regexp.Compile\<close> on arbitrary patterns,
  the Unicode part of \<open>strings.ToLower\<close> and the time format are the fields of an environment, and the tickers a
  parameter of the polling loop. Log lines are not modelled.
\<close>

section \<open>The client\<close>

record client =
  baseURL :: string
  secret :: string
  agentID :: string
  agentName :: string
  dbType :: string
  agentType :: string
  monitorOnly :: bool

text \<open>\<open>New\<close>, given the eight random bytes it may read.\<close>

definition New_client :: "bytes \<Rightarrow> string \<Rightarrow> string \<Rightarrow> string \<Rightarrow> string \<Rightarrow> string \<Rightarrow> client" where
  "New_client rnd url sec aid name db =
     (let aid = (if aid = [] then ''proxy-'' @ hex_encode rnd else aid) in
      \<lparr>baseURL = url, secret = sec, agentID = aid, agentName = name, dbType = db,
       agentType = ''proxy'', monitorOnly = False\<rparr>)"

definition SetMode :: "string \<Rightarrow> bool \<Rightarrow> client \<Rightarrow> client" where
  "SetMode atype mon c =
     (let c = (if atype \<noteq> [] then c\<lparr>agentType := atype\<rparr> else c) in c\<lparr>monitorOnly := mon\<rparr>)"

section \<open>Addresses\<close>

text \<open>The last and the first position of a character, as \<open>LastIndexByteString\<close> and \<open>IndexByteString\<close>.\<close>

definition index_of :: "string \<Rightarrow> char \<Rightarrow> nat option" where
  "index_of s c = (let n = length (takeWhile (\<lambda>x. x \<noteq> c) s) in if n < length s then Some n else None)"

definition last_index_of :: "string \<Rightarrow> char \<Rightarrow> nat option" where
  "last_index_of s c = map_option (\<lambda>n. length s - 1 - n) (index_of (rev s) c)"

text \<open>\<open>net.SplitHostPort\<close>; None is any of its address errors.\<close>

definition SplitHostPort :: "string \<Rightarrow> (string \<times> string) option" where
  "SplitHostPort hostport = (case last_index_of hostport CHR '':'' of
     None \<Rightarrow> None
   | Some i \<Rightarrow> do {
       (host, j, k) \<leftarrow>
         (if hd hostport = CHR ''['' then (case index_of hostport CHR '']'' of
            None \<Rightarrow> None
          | Some e \<Rightarrow> if e + 1 = i then Some (take (e - 1) (drop 1 hostport), 1, e + 1) else None)
          else (let host = take i hostport in
            if CHR '':'' \<in> set host then None else Some (host, 0, 0)));
       if CHR ''['' \<in> set (drop j hostport) then None
       else if CHR '']'' \<in> set (drop k hostport) then None
       else Some (host, drop (i + 1) hostport)
     })"

definition splitHostPort :: "string \<Rightarrow> string \<times> string" where
  "splitHostPort addr = (case SplitHostPort addr of Some (h, p) \<Rightarrow> (h, p) | None \<Rightarrow> (addr, []))"

section \<open>Events\<close>

type_synonym event_map = json_object

text \<open>\<open>EventTime.UTC().Format(time.RFC3339Nano)\<close> is the parameter \<open>fmt\<close>.\<close>

definition event_level :: "client \<Rightarrow> string \<Rightarrow> string" where
  "event_level c action =
     (if action = ActionBlock then (if monitorOnly c then ''ALERT'' else ''BLOCK'')
      else if action = ActionAlert then ''ALERT''
      else ''INFO'')"

definition build_event :: "(int \<Rightarrow> string) \<Rightarrow> client \<Rightarrow> string \<Rightarrow> string \<Rightarrow> string \<Rightarrow> query_meta \<Rightarrow> event_map" where
  "build_event fmt c action ruleName sql meta =
     (let level = event_level c action;
          (appIP, srcPort) = splitHostPort (Source meta);
          ev = [
            (''level'', JString level),
            (''agent_type'', JString (agentType c)),
            (''db_type'', JString (dbType c)),
            (''rule'', JString ruleName),
            (''source'', JString (Source meta)),
            (''query'', JString sql),
            (''app_ip'', JString appIP),
            (''src_port'', JString srcPort),
            (''conn_id'', JNumber (ConnID meta)),
            (''seq'', JNumber (Seq meta)),
            (''txn_status'', JString (TxnStatus meta))];
          ev = (if Tokens meta \<noteq> [] then AList.update ''tokens'' (JStrings (Tokens meta)) ev else ev);
          ev = (if Result meta \<noteq> [] then AList.update ''result'' (JString (Result meta)) ev else ev)
      in if EventTime meta \<noteq> 0 then AList.update ''time'' (JString (fmt (EventTime meta))) ev else ev)"

text \<open>
  The sink starts a goroutine for each event; \<open>spawn\<close> is that effect on the world. The closure reads the
  client's mode when it is called, so \<open>c\<close> is the client at that time.
\<close>

definition Sink :: "(int \<Rightarrow> string) \<Rightarrow> (event_map \<Rightarrow> 'w \<Rightarrow> 'w) \<Rightarrow> client \<Rightarrow> 'w event_sink" where
  "Sink fmt spawn c = (\<lambda>action ruleName sql meta w. spawn (build_event fmt c action ruleName sql meta) w)"

section \<open>Rules from the console\<close>

record apiRule =
  ar_ID :: string
  ar_Name :: string
  ar_DBType :: string
  ar_Pattern :: string
  ar_Action :: string
  ar_Enabled :: bool

definition convert_rule :: "(string \<Rightarrow> regexp option) \<Rightarrow> (string \<Rightarrow> string) \<Rightarrow> apiRule \<Rightarrow> rule" where
  "convert_rule compile lower ar =
     (let r = \<lparr>r_Name = ar_Name ar, r_Action = ToLower lower (ar_Action ar), r_SQLPattern = None,
               r_Users = [], r_Databases = []\<rparr>
      in if ar_Pattern ar \<noteq> []
         then (case compile (ar_Pattern ar) of
                 Some re \<Rightarrow> r\<lparr>r_SQLPattern := Some re\<rparr>
               | None \<Rightarrow> r)
         else r)"

fun convertRules :: "(string \<Rightarrow> regexp option) \<Rightarrow> (string \<Rightarrow> string) \<Rightarrow> apiRule list \<Rightarrow> rule list" where
  "convertRules compile lower [] = []"
| "convertRules compile lower (ar # ars) =
     (if \<not> ar_Enabled ar then convertRules compile lower ars
      else convert_rule compile lower ar # convertRules compile lower ars)"

section \<open>Requests\<close>

record http_request =
  hr_Method :: string
  hr_URL :: string
  hr_Header :: "string \<rightharpoonup> string"
  hr_Body :: "bytes option"

record http_response =
  StatusCode :: nat
  Body :: bytes

record 'w env =
  parse_url :: "string \<Rightarrow> go_error option"
  Do :: "http_request \<Rightarrow> 'w \<Rightarrow> (go_error + http_response) \<times> 'w"
  decode_rules :: "bytes \<Rightarrow> go_error + apiRule list"
  compile :: "string \<Rightarrow> regexp option"
  lower :: "string \<Rightarrow> string"

definition NewRequest :: "'w env \<Rightarrow> string \<Rightarrow> string \<Rightarrow> bytes option \<Rightarrow> go_error + http_request" where
  "NewRequest env method url body = (case parse_url env url of
     Some e \<Rightarrow> Inl e
   | None \<Rightarrow> Inr \<lparr>hr_Method = method, hr_URL = url, hr_Header = Map.empty, hr_Body = body\<rparr>)"

text \<open>
  \<open>Header.Set\<close> stores a field under its canonical name, which is also the name sent: capital letters after
  a hyphen and at the beginning, small ones elsewhere, if all characters are allowed in a field name.
\<close>

definition upper_char :: "char \<Rightarrow> char" where
  "upper_char c = (if 97 \<le> rune_of c \<and> rune_of c \<le> 122 then char_of (rune_of c - 32) else c)"

definition field_char :: "char \<Rightarrow> bool" where
  "field_char c \<longleftrightarrow> (let r = rune_of c in 97 \<le> r \<and> r \<le> 122 \<or> 65 \<le> r \<and> r \<le> 90 \<or> 48 \<le> r \<and> r \<le> 57)
     \<or> c \<in> set ''!#$%&*+-.^_`|~'' \<or> c = CHR 0x27"

fun capitalised :: "bool \<Rightarrow> string \<Rightarrow> string" where
  "capitalised up [] = []"
| "capitalised up (c # s) = (if up then upper_char c else lower_char c) # capitalised (c = CHR ''-'') s"

definition CanonicalHeaderKey :: "string \<Rightarrow> string" where
  "CanonicalHeaderKey s = (if list_all field_char s then capitalised True s else s)"

definition set_header :: "string \<Rightarrow> string \<Rightarrow> http_request \<Rightarrow> http_request" where
  "set_header k v r = r\<lparr>hr_Header := (hr_Header r)(CanonicalHeaderKey k \<mapsto> v)\<rparr>"

lemma header_keys [simp]:
  "CanonicalHeaderKey ''Content-Type'' = ''Content-Type''"
  "CanonicalHeaderKey ''X-DBFW-Agent-ID'' = ''X-Dbfw-Agent-Id''"
  "CanonicalHeaderKey ''X-DBFW-Secret'' = ''X-Dbfw-Secret''"
  by code_simp+

definition with_secret :: "client \<Rightarrow> http_request \<Rightarrow> http_request" where
  "with_secret c r = (if secret c \<noteq> [] then set_header ''X-DBFW-Secret'' (secret c) r else r)"

definition fetchRules :: "'w env \<Rightarrow> client \<Rightarrow> 'w \<Rightarrow> (go_error + rule list) \<times> 'w" where
  "fetchRules env c w =
     (let url = baseURL c @ ''/api/agent/rules?db_type='' @ dbType c in
      case NewRequest env ''GET'' url None of
        Inl e \<Rightarrow> (Inl e, w)
      | Inr req \<Rightarrow> (case Do env (with_secret c req) w of
          (Inl e, w') \<Rightarrow> (Inl e, w')
        | (Inr resp, w') \<Rightarrow>
            if StatusCode resp \<noteq> 200
            then (Inl (Errorf (''console returned '' @ show_nat (StatusCode resp))), w')
            else (case decode_rules env (Body resp) of
                Inl e \<Rightarrow> (Inl e, w')
              | Inr ars \<Rightarrow> (Inr (convertRules (compile env) (lower env) ars), w'))))"

definition pushEvent :: "'w env \<Rightarrow> client \<Rightarrow> event_map \<Rightarrow> 'w \<Rightarrow> 'w" where
  "pushEvent env c ev w =
     (case NewRequest env ''POST'' (baseURL c @ ''/api/events/ingest'') (Some (bytes_of (Marshal ev))) of
        Inl e \<Rightarrow> w
      | Inr req \<Rightarrow>
          snd (Do env (with_secret c (set_header ''X-DBFW-Agent-ID'' (agentID c)
            (set_header ''Content-Type'' ''application/json'' req))) w))"

definition sendHeartbeat :: "'w env \<Rightarrow> client \<Rightarrow> 'w \<Rightarrow> 'w" where
  "sendHeartbeat env c w =
     (let hb = [
            (''id'', JString (agentID c)),
            (''name'', JString (agentName c)),
            (''agent_type'', JString (agentType c)),
            (''db_type'', JString (dbType c)),
            (''version'', JString ''1.0.0'')]
      in case NewRequest env ''POST'' (baseURL c @ ''/api/agent/heartbeat'') (Some (bytes_of (Marshal hb))) of
        Inl e \<Rightarrow> w
      | Inr req \<Rightarrow> snd (Do env (with_secret c (set_header ''Content-Type'' ''application/json'' req)) w))"

section \<open>The polling loop\<close>

text \<open>
  The two tickers are the runtime's: for their periods in nanoseconds, \<open>tickers\<close> is the sequence of the ticks
  the loop receives until its context is done.
\<close>

datatype tick = RuleTick | HeartbeatTick

definition poll_interval :: "int \<Rightarrow> int" where
  "poll_interval p = (if p \<le> 0 then 60 * 1000000000 else p)"

definition heartbeat_period :: int where
  "heartbeat_period = 30 * 1000000000"

definition poll_rules :: "'w env \<Rightarrow> client \<Rightarrow> 'v engine \<times> 'w \<Rightarrow> 'v engine \<times> 'w" where
  "poll_rules env c s = (case s of (eng, w) \<Rightarrow> (case fetchRules env c w of
     (Inr rs, w') \<Rightarrow> (Reload rs eng, w')
   | (Inl e, w') \<Rightarrow> (eng, w')))"

fun start_loop :: "'w env \<Rightarrow> client \<Rightarrow> tick list \<Rightarrow> 'v engine \<times> 'w \<Rightarrow> 'v engine \<times> 'w" where
  "start_loop env c [] s = s"
| "start_loop env c (RuleTick # ts) s = start_loop env c ts (poll_rules env c s)"
| "start_loop env c (HeartbeatTick # ts) (eng, w) = start_loop env c ts (eng, sendHeartbeat env c w)"

definition Start :: "(int \<Rightarrow> int \<Rightarrow> tick list) \<Rightarrow> 'w env \<Rightarrow> client \<Rightarrow> 'v engine \<Rightarrow> int \<Rightarrow> 'w \<Rightarrow> 'v engine \<times> 'w" where
  "Start tickers env c eng pollInterval w =
     (let pollInterval = poll_interval pollInterval;
          (eng, w) = poll_rules env c (eng, w)
      in start_loop env c (tickers pollInterval heartbeat_period) (eng, sendHeartbeat env c w))"

section \<open>What the console is told\<close>

lemma level_values:
  "event_level c a \<in> {''BLOCK'', ''ALERT'', ''INFO''}"
  "event_level c a = ''BLOCK'' \<longleftrightarrow> a = ActionBlock \<and> \<not> monitorOnly c"
  "event_level c a = ''ALERT'' \<longleftrightarrow> a = ActionAlert \<or> (a = ActionBlock \<and> monitorOnly c)"
  by (auto simp: event_level_def action_defs)

lemma lookup_optional:
  "map_of (if P then AList.update k v al else al) k' = (if P \<and> k' = k then Some v else map_of al k')"
  by (simp add: update_conv')

lemma build_event_fields:
  "map_of (build_event fmt c a r sql meta) ''level'' = Some (JString (event_level c a))"
  "map_of (build_event fmt c a r sql meta) ''rule'' = Some (JString r)"
  "map_of (build_event fmt c a r sql meta) ''query'' = Some (JString sql)"
  "map_of (build_event fmt c a r sql meta) ''app_ip'' = Some (JString (fst (splitHostPort (Source meta))))"
  "map_of (build_event fmt c a r sql meta) ''src_port'' = Some (JString (snd (splitHostPort (Source meta))))"
  "map_of (build_event fmt c a r sql meta) ''conn_id'' = Some (JNumber (ConnID meta))"
  "map_of (build_event fmt c a r sql meta) ''seq'' = Some (JNumber (Seq meta))"
  "map_of (build_event fmt c a r sql meta) ''tokens''
     = (if Tokens meta = [] then None else Some (JStrings (Tokens meta)))"
  "map_of (build_event fmt c a r sql meta) ''result''
     = (if Result meta = [] then None else Some (JString (Result meta)))"
  "map_of (build_event fmt c a r sql meta) ''time''
     = (if EventTime meta = 0 then None else Some (JString (fmt (EventTime meta))))"
  by (simp_all add: build_event_def Let_def split_def lookup_optional del: AList.update.simps)

lemma list_all_update: "list_all P al \<Longrightarrow> P (k, v) \<Longrightarrow> list_all P (AList.update k v al)"
  by (induction al) auto

lemma event_keys_ascii:
  "ascii ''level''" "ascii ''agent_type''" "ascii ''db_type''" "ascii ''rule''" "ascii ''source''" "ascii ''query''"
  "ascii ''app_ip''" "ascii ''src_port''" "ascii ''conn_id''" "ascii ''seq''" "ascii ''txn_status''"
  "ascii ''tokens''" "ascii ''result''" "ascii ''time''"
  by code_simp+

lemma build_event_wf:
  "build_event fmt c a r sql meta \<noteq> []"
  "list_all (\<lambda>m. snd m \<noteq> JStrings []) (build_event fmt c a r sql meta)"
  "distinct (map fst (build_event fmt c a r sql meta))"
  "list_all (\<lambda>m. ascii (fst m)) (build_event fmt c a r sql meta)"
proof -
  show "build_event fmt c a r sql meta \<noteq> []"
    using build_event_fields(2) [of fmt c a r sql meta] by auto
  show "list_all (\<lambda>m. snd m \<noteq> JStrings []) (build_event fmt c a r sql meta)"
    by (simp add: build_event_def Let_def split_def list_all_update del: AList.update.simps)
  show "distinct (map fst (build_event fmt c a r sql meta))"
    by (simp add: build_event_def Let_def split_def distinct_update del: AList.update.simps)
  show "list_all (\<lambda>m. ascii (fst m)) (build_event fmt c a r sql meta)"
    by (simp add: build_event_def Let_def split_def list_all_update event_keys_ascii
        del: AList.update.simps ascii_simps)
qed

section \<open>Splitting addresses\<close>

text \<open>\<open>net.JoinHostPort\<close>, the form of a connection's remote address.\<close>

definition JoinHostPort :: "string \<Rightarrow> string \<Rightarrow> string" where
  "JoinHostPort host port = (if CHR '':'' \<in> set host then ''['' @ host @ '']:'' @ port else host @ '':'' @ port)"

lemma index_of_append: "c \<notin> set a \<Longrightarrow> index_of (a @ c # b) c = Some (length a)"
proof -
  assume "c \<notin> set a"
  then have "takeWhile (\<lambda>x. x \<noteq> c) (a @ c # b) = a" by (subst takeWhile_append2) auto
  then show ?thesis by (simp add: index_of_def)
qed

lemma last_index_of_append: "c \<notin> set b \<Longrightarrow> last_index_of (a @ c # b) c = Some (length a)"
  using index_of_append [of c "rev b" "rev a"] by (simp add: last_index_of_def)

lemma last_index_of_None: "c \<notin> set a \<Longrightarrow> last_index_of a c = None"
proof -
  assume "c \<notin> set a"
  then have "takeWhile (\<lambda>x. x \<noteq> c) (rev a) = rev a" by (subst takeWhile_eq_all_conv) auto
  then have "length (takeWhile (\<lambda>x. x \<noteq> c) (rev a)) = length a" by (simp only: length_rev)
  then show ?thesis by (simp only: last_index_of_def index_of_def Let_def) simp
qed

text \<open>
  C35: the address of a connection is split back into its parts: for every host without brackets, IPv6
  addresses (with their colons) included, and every port without colon and brackets,
  \<open>splitHostPort\<close> undoes \<open>net.JoinHostPort\<close>, and an address without a colon is all host.
\<close>

theorem splitHostPort_join:
  assumes "CHR ''['' \<notin> set host" and "CHR '']'' \<notin> set host"
    and "CHR '':'' \<notin> set port" and "CHR ''['' \<notin> set port" and "CHR '']'' \<notin> set port"
  shows "splitHostPort (JoinHostPort host port) = (host, port) \<and> splitHostPort port = (port, [])"
proof -
  have none: "splitHostPort port = (port, [])"
    using last_index_of_None [OF assms(3)] by (simp add: splitHostPort_def SplitHostPort_def)
  show ?thesis
  proof (cases "CHR '':'' \<in> set host")
    case True
    have "last_index_of ((''['' @ host @ '']'') @ CHR '':'' # port) CHR '':'' = Some (length host + 2)"
      using last_index_of_append [OF assms(3), of "''['' @ host @ '']''"] by simp
    moreover have "index_of ((''['' @ host) @ CHR '']'' # '':'' @ port) CHR '']'' = Some (length host + 1)"
      using index_of_append [of "CHR '']''" "''['' @ host"] assms(2) by simp
    ultimately show ?thesis using True none assms
      by (simp add: splitHostPort_def SplitHostPort_def JoinHostPort_def)
  next
    case False
    have "last_index_of (host @ CHR '':'' # port) CHR '':'' = Some (length host)"
      by (rule last_index_of_append [OF assms(3)])
    moreover have "hd (host @ CHR '':'' # port) \<noteq> CHR ''[''"
      using assms(1) by (cases host) auto
    ultimately show ?thesis using False none assms
      by (simp add: splitHostPort_def SplitHostPort_def JoinHostPort_def)
  qed
qed

theorem splitHostPort_join_witness:
  "splitHostPort (JoinHostPort ''fe80::1'' ''53412'') = (''fe80::1'', ''53412'')
     \<and> JoinHostPort ''fe80::1'' ''53412'' = ''[fe80::1]:53412''"
  using splitHostPort_join [of "''fe80::1''" "''53412''"] by (simp add: JoinHostPort_def)

section \<open>Rules that do not compile\<close>

lemma convertRules_append:
  "convertRules cmp low (as @ bs) = convertRules cmp low as @ convertRules cmp low bs"
  by (induction as) auto

lemma convertRules_disabled: "list_all (\<lambda>ar. \<not> ar_Enabled ar) as \<Longrightarrow> convertRules cmp low as = []"
  by (induction as) auto

lemma convertRules_eq: "convertRules cmp low ars = map (convert_rule cmp low) (filter ar_Enabled ars)"
  by (induction ars) auto

text \<open>
  C37: a console rule whose pattern is not a valid regular expression is not dropped: it is installed
  without a pattern and matches every query. Whatever disabled rules precede it and whatever rules follow,
  its action decides every query of every user on every database; an \<open>allow\<close> rule with a typo switches
  off all the rules below it.
\<close>

theorem broken_pattern_matches_all:
  assumes "ar_Enabled ar" and "ar_Pattern ar \<noteq> []" and "cmp (ar_Pattern ar) = None"
    and "list_all (\<lambda>d. \<not> ar_Enabled d) disabled"
  shows "Decide fold_rune (Reload (convertRules cmp low (disabled @ ar # ars)) e) sql user db
     = \<lparr>d_Action = ToLower low (ar_Action ar), d_Rule = ar_Name ar\<rparr>"
  using assms
  by (simp add: convertRules_append convertRules_disabled convert_rule_def Let_def Decide_def Reload_def
      rule_matches_def)

theorem broken_pattern_matches_all_witness:
  "Decide ascii_fold (Reload (convertRules Compile id ([] @
       \<lparr>ar_ID = ''1'', ar_Name = ''allow-reports'', ar_DBType = ''mysql'', ar_Pattern = ''SELECT (a'',
        ar_Action = ''ALLOW'', ar_Enabled = True\<rparr> #
       [\<lparr>ar_ID = ''2'', ar_Name = ''no-drop'', ar_DBType = ''mysql'', ar_Pattern = ''DROP'',
        ar_Action = ''BLOCK'', ar_Enabled = True\<rparr>])) (New [] :: unit engine)) ''DROP TABLE t'' ''u'' ''d''
     = \<lparr>d_Action = ActionAllow, d_Rule = ''allow-reports''\<rparr>"
proof -
  have "Compile ''SELECT (a'' = None" "ToLower id ''ALLOW'' = ActionAllow" by code_simp+
  then show ?thesis by (subst broken_pattern_matches_all) simp_all
qed

section \<open>Polling\<close>

text \<open>The outcomes of the rule fetches of a run, in order.\<close>

fun loop_fetches :: "'w env \<Rightarrow> client \<Rightarrow> tick list \<Rightarrow> 'w \<Rightarrow> (go_error + rule list) list" where
  "loop_fetches env c [] w = []"
| "loop_fetches env c (RuleTick # ts) w =
     (case fetchRules env c w of (r, w') \<Rightarrow> r # loop_fetches env c ts w')"
| "loop_fetches env c (HeartbeatTick # ts) w = loop_fetches env c ts (sendHeartbeat env c w)"

definition fetches :: "'w env \<Rightarrow> client \<Rightarrow> tick list \<Rightarrow> 'w \<Rightarrow> (go_error + rule list) list" where
  "fetches env c ticks w = (case fetchRules env c w of
     (r, w') \<Rightarrow> r # loop_fetches env c ticks (sendHeartbeat env c w'))"

fun good :: "(go_error + rule list) list \<Rightarrow> rule list list" where
  "good [] = []"
| "good (Inl e # rs) = good rs"
| "good (Inr r # rs) = r # good rs"

lemma good_append [simp]: "good (a @ b) = good a @ good b"
  by (induction a rule: good.induct) auto

lemma poll_rules_engine:
  "fst (poll_rules env c (eng, w)) =
     eng\<lparr>rules := last (rules eng # good [fst (fetchRules env c w)])\<rparr>"
  "snd (poll_rules env c (eng, w)) = snd (fetchRules env c w)"
  by (auto simp: poll_rules_def Reload_def split: prod.split sum.split)

lemma start_loop_engine:
  "fst (start_loop env c ts (eng, w)) = eng\<lparr>rules := last (rules eng # good (loop_fetches env c ts w))\<rparr>"
proof (induction ts arbitrary: eng w)
  case (Cons t ts)
  show ?case
  proof (cases t)
    case RuleTick
    obtain r w' where f: "fetchRules env c w = (r, w')" by force
    with poll_rules_engine [of env c eng w] have p: "poll_rules env c (eng, w) =
        (eng\<lparr>rules := last (rules eng # good [r])\<rparr>, w')" by (metis fst_conv prod.collapse snd_conv)
    show ?thesis
      by (cases r) (simp_all add: RuleTick p f Cons.IH)
  next
    case HeartbeatTick
    then show ?thesis by (simp add: Cons.IH)
  qed
qed simp

text \<open>
  C16: polling never leaves the agent without rules. However the console behaves (refused connections, other
  status codes than 200, bodies that do not decode), whatever the polling interval and in whatever sequence
  the ticks of the rule polls and the heartbeats arrive, the engine ends with its sink unchanged and with the rules of the last fetch that
  succeeded, or with the rules it had when none did.
\<close>

theorem polling_keeps_last_good:
  "fst (Start tickers env c eng pollInterval w) = eng\<lparr>rules :=
     last (rules eng # good (fetches env c (tickers (poll_interval pollInterval) heartbeat_period) w))\<rparr>"
proof -
  obtain r w' where f: "fetchRules env c w = (r, w')" by force
  with poll_rules_engine [of env c eng w] have p: "poll_rules env c (eng, w) =
      (eng\<lparr>rules := last (rules eng # good [r])\<rparr>, w')" by (metis fst_conv prod.collapse snd_conv)
  show ?thesis
    by (cases r) (simp_all add: Start_def p f fetches_def start_loop_engine)
qed

text \<open>The requests of an agent.\<close>

definition rules_request :: "client \<Rightarrow> http_request" where
  "rules_request c = with_secret c \<lparr>hr_Method = ''GET'',
     hr_URL = baseURL c @ ''/api/agent/rules?db_type='' @ dbType c, hr_Header = Map.empty, hr_Body = None\<rparr>"

definition heartbeat_request :: "client \<Rightarrow> http_request" where
  "heartbeat_request c = with_secret c \<lparr>hr_Method = ''POST'', hr_URL = baseURL c @ ''/api/agent/heartbeat'',
     hr_Header = Map.empty(''Content-Type'' \<mapsto> ''application/json''),
     hr_Body = Some (bytes_of (Marshal [(''id'', JString (agentID c)), (''name'', JString (agentName c)),
       (''agent_type'', JString (agentType c)), (''db_type'', JString (dbType c)),
       (''version'', JString ''1.0.0'')]))\<rparr>"

fun tick_request :: "client \<Rightarrow> tick \<Rightarrow> http_request" where
  "tick_request c RuleTick = rules_request c"
| "tick_request c HeartbeatTick = heartbeat_request c"

text \<open>An environment that records the requests and answers them by \<open>answer\<close>.\<close>

definition recording :: "(http_request list \<Rightarrow> go_error + http_response) \<Rightarrow> (bytes \<Rightarrow> go_error + apiRule list) \<Rightarrow>
    http_request list env" where
  "recording answer dec = \<lparr>parse_url = (\<lambda>u. None), Do = (\<lambda>r w. (answer (w @ [r]), w @ [r])),
     decode_rules = dec, compile = Compile, lower = id\<rparr>"

lemma fetch_records: "snd (fetchRules (recording answer dec) c w) = w @ [rules_request c]"
  by (simp add: fetchRules_def recording_def NewRequest_def rules_request_def Let_def split: sum.split)

lemma heartbeat_records: "sendHeartbeat (recording answer dec) c w = w @ [heartbeat_request c]"
  by (simp add: sendHeartbeat_def recording_def NewRequest_def heartbeat_request_def Let_def set_header_def)

lemma loop_records:
  "snd (start_loop (recording answer dec) c ts (eng, w)) = w @ map (tick_request c) ts"
proof (induction ts arbitrary: eng w)
  case (Cons t ts)
  show ?case
  proof (cases t)
    case RuleTick
    obtain eng' where "poll_rules (recording answer dec) c (eng, w) = (eng', w @ [rules_request c])"
      by (metis fetch_records poll_rules_engine(2) prod.collapse)
    then show ?thesis by (simp add: RuleTick Cons.IH)
  next
    case HeartbeatTick
    then show ?thesis by (simp add: Cons.IH heartbeat_records)
  qed
qed simp

text \<open>
  C36: the conversation with the console: one rule request and one heartbeat at the start, then one request
  per tick in the order of the ticks, whatever the console answers. The tickers run at 30 seconds for
  heartbeats and, for rules, at the interval asked for, or 60 seconds when that is not positive. Each
  request carries the shared secret in its header exactly when one is configured.
\<close>

theorem start_conversation:
  "snd (Start tickers (recording answer dec) c eng pollInterval []) =
     [rules_request c, heartbeat_request c] @ map (tick_request c)
       (tickers (if 0 < pollInterval then pollInterval else 60000000000) 30000000000)
   \<and> (\<forall>t. hr_Header (tick_request c t) ''X-Dbfw-Secret'' = (if secret c = [] then None else Some (secret c)))"
proof -
  obtain eng' where p: "poll_rules (recording answer dec) c (eng, []) = (eng', [rules_request c])"
    by (metis fetch_records poll_rules_engine(2) prod.collapse append_Nil)
  have "hr_Header (tick_request c t) ''X-Dbfw-Secret'' = (if secret c = [] then None else Some (secret c))" for t
    by (cases t) (simp_all add: rules_request_def heartbeat_request_def with_secret_def set_header_def)
  then show ?thesis
    by (simp add: Start_def p heartbeat_records loop_records poll_interval_def heartbeat_period_def)
qed

section \<open>What the console reads\<close>

definition push_request :: "client \<Rightarrow> event_map \<Rightarrow> http_request" where
  "push_request c ev = with_secret c \<lparr>hr_Method = ''POST'', hr_URL = baseURL c @ ''/api/events/ingest'',
     hr_Header = Map.empty(''Content-Type'' \<mapsto> ''application/json'', ''X-Dbfw-Agent-Id'' \<mapsto> agentID c),
     hr_Body = Some (bytes_of (Marshal ev))\<rparr>"

lemma push_records: "pushEvent (recording answer dec) c ev w = w @ [push_request c ev]"
  by (simp add: pushEvent_def recording_def NewRequest_def push_request_def set_header_def)

lemma push_request_body: "hr_Body (push_request c ev) = Some (bytes_of (Marshal ev))"
  by (simp add: push_request_def with_secret_def set_header_def)

lemma scrub_if: "scrub s = (if valid_utf8 s then s else scrub s)"
  by (simp add: scrub_valid)

lemma event_read_back:
  "\<exists>ev. map_option map_of (read_object (str_of (bytes_of (Marshal (build_event fmt c a r sql meta))))) = Some ev
     \<and> ev ''rule'' = Some (JString (scrub r))
     \<and> ev ''query'' = Some (JString (if valid_utf8 sql then sql else scrub sql))
     \<and> (ev ''level'' = Some (JString ''BLOCK'') \<longleftrightarrow> a = ActionBlock \<and> \<not> monitorOnly c)
     \<and> (ev ''level'' = Some (JString ''ALERT'') \<longleftrightarrow> a = ActionAlert \<or> (a = ActionBlock \<and> monitorOnly c))
     \<and> ev ''conn_id'' = Some (JNumber (ConnID meta)) \<and> ev ''seq'' = Some (JNumber (Seq meta))
     \<and> ev ''tokens'' = (if Tokens meta = [] then None else Some (JStrings (map scrub (Tokens meta))))
     \<and> (ev ''time'' = None \<longleftrightarrow> EventTime meta = 0)"
proof -
  let ?ev = "build_event fmt c a r sql meta"
  obtain ms where ms: "read_object (Marshal ?ev) = Some ms" "map_of ms = map_option scrub_json \<circ> map_of ?ev"
    using Marshal_members [OF build_event_wf] by blast
  have "ascii ''BLOCK''" "ascii ''ALERT''" "ascii ''INFO''" by code_simp+
  then have "ascii (event_level c a)" using level_values(1) [of c a] by auto
  then have level: "scrub (event_level c a) = event_level c a" by (intro scrub_valid ascii_valid)
  show ?thesis
    by (intro exI [of _ "map_of ms"])
      (simp add: ms build_event_fields level level_values scrub_if [of sql, symmetric])
qed

text \<open>
  C17: the console learns what the engine decided. An evaluation whose sink is the console's sends, once its
  goroutine has run and whatever the console answers, exactly one request, unless the action is \<open>ignore\<close>.
  Its body is a JSON object that reads back as the rule and the query of the decision (byte for byte
  when the query is valid UTF-8), the connection and sequence numbers, and the fingerprint tokens if there
  are any. Its level is BLOCK exactly for a block decision of an agent that can block, and ALERT for one that
  only monitors.
\<close>

theorem console_told_decision:
  "\<exists>d w'. Evaluate fold_rune (SetSink (Some (Sink fmt (pushEvent (recording answer dec) c) c)) e) sql user db meta w
        = (d, w')
     \<and> d = Decide fold_rune e sql user db
     \<and> (if d_Action d = ActionIgnore then w' = w
        else \<exists>req body ev. w' = w @ [req] \<and> hr_Body req = Some body
          \<and> map_option map_of (read_object (str_of body)) = Some ev
          \<and> ev ''rule'' = Some (JString (scrub (d_Rule d)))
          \<and> ev ''query'' = Some (JString (if valid_utf8 sql then sql else scrub sql))
          \<and> (ev ''level'' = Some (JString ''BLOCK'') \<longleftrightarrow> d_Action d = ActionBlock \<and> \<not> monitorOnly c)
          \<and> (ev ''level'' = Some (JString ''ALERT'') \<longleftrightarrow>
               d_Action d = ActionAlert \<or> (d_Action d = ActionBlock \<and> monitorOnly c))
          \<and> ev ''conn_id'' = Some (JNumber (ConnID meta)) \<and> ev ''seq'' = Some (JNumber (Seq meta))
          \<and> ev ''tokens'' = (if Tokens meta = [] then None else Some (JStrings (map scrub (Tokens meta))))
          \<and> (ev ''time'' = None \<longleftrightarrow> EventTime meta = 0))"
proof -
  let ?d = "Decide fold_rune e sql user db"
  let ?ev = "build_event fmt c (d_Action ?d) (d_Rule ?d) sql meta"
  have run: "Evaluate fold_rune (SetSink (Some (Sink fmt (pushEvent (recording answer dec) c) c)) e) sql user db meta w
      = (?d, if d_Action ?d = ActionIgnore then w else w @ [push_request c ?ev])"
    by (simp add: Evaluate_def evaluate_rules_eq SetSink_def Decide_def Emit_def Let_def Sink_def push_records)
  show ?thesis
  proof (cases "d_Action ?d = ActionIgnore")
    case True
    with run show ?thesis by simp
  next
    case False
    with run push_request_body [of c ?ev] event_read_back [of fmt c "d_Action ?d" "d_Rule ?d" sql meta]
    show ?thesis by (simp del: str_of_bytes_of)
  qed
qed

end
