(* ===== verification/Sha256.thy ===== *)
theory Sha256
  imports Prelude
begin

unbundle bit_operations_syntax

text \<open>
  \<open>sha256.Sum256\<close> of Go's standard library, after FIPS 180-4: padding, message schedule and compression on
  32-bit words, whose addition wraps around.
\<close>

type_synonym word32 = "32 word"

text \<open>The tables of the standard, in decimal.\<close>

definition round_constants :: "word32 list" where
  "round_constants =
     [1116352408, 1899447441, 3049323471, 3921009573, 961987163, 1508970993, 2453635748, 2870763221,
      3624381080, 310598401, 607225278, 1426881987, 1925078388, 2162078206, 2614888103, 3248222580,
      3835390401, 4022224774, 264347078, 604807628, 770255983, 1249150122, 1555081692, 1996064986,
      2554220882, 2821834349, 2952996808, 3210313671, 3336571891, 3584528711, 113926993, 338241895,
      666307205, 773529912, 1294757372, 1396182291, 1695183700, 1986661051, 2177026350, 2456956037,
      2730485921, 2820302411, 3259730800, 3345764771, 3516065817, 3600352804, 4094571909, 275423344,
      430227734, 506948616, 659060556, 883997877, 958139571, 1322822218, 1537002063, 1747873779,
      1955562222, 2024104815, 2227730452, 2361852424, 2428436474, 2756734187, 3204031479, 3329325298]"

definition initial_hash :: "word32 list" where
  "initial_hash =
     [1779033703, 3144134277, 1013904242, 2773480762, 1359893119, 2600822924, 528734635, 1541459225]"

lemma length_initial_hash [simp]: "length initial_hash = 8"
  by (simp add: initial_hash_def)

definition Ch :: "word32 \<Rightarrow> word32 \<Rightarrow> word32 \<Rightarrow> word32" where
  "Ch x y z = (x AND y) XOR (NOT x AND z)"

definition Maj :: "word32 \<Rightarrow> word32 \<Rightarrow> word32 \<Rightarrow> word32" where
  "Maj x y z = (x AND y) XOR (x AND z) XOR (y AND z)"

definition big_sigma0 :: "word32 \<Rightarrow> word32" where
  "big_sigma0 x = word_rotr 2 x XOR word_rotr 13 x XOR word_rotr 22 x"

definition big_sigma1 :: "word32 \<Rightarrow> word32" where
  "big_sigma1 x = word_rotr 6 x XOR word_rotr 11 x XOR word_rotr 25 x"

definition small_sigma0 :: "word32 \<Rightarrow> word32" where
  "small_sigma0 x = word_rotr 7 x XOR word_rotr 18 x XOR drop_bit 3 x"

definition small_sigma1 :: "word32 \<Rightarrow> word32" where
  "small_sigma1 x = word_rotr 17 x XOR word_rotr 19 x XOR drop_bit 10 x"

text \<open>Padding: a one bit, zeroes up to 56 modulo 64 bytes, and the length in bits on 8 bytes.\<close>

definition pad :: "bytes \<Rightarrow> bytes" where
  "pad m = (let n = length m; z = (119 - n mod 64) mod 64 in
     m @ [0x80] @ replicate z 0 @ be_bytes 8 (8 * n))"

fun words_of :: "bytes \<Rightarrow> word32 list" where
  "words_of (a # b # c # d # bs) = (push_bit 24 (ucast a) OR push_bit 16 (ucast b) OR push_bit 8 (ucast c) OR ucast d) # words_of bs"
| "words_of bs = []"

definition word_bytes :: "word32 \<Rightarrow> bytes" where
  "word_bytes w = [ucast (drop_bit 24 w), ucast (drop_bit 16 w), ucast (drop_bit 8 w), ucast w]"

text \<open>The message schedule, kept with its newest word first.\<close>

primrec extend :: "nat \<Rightarrow> word32 list \<Rightarrow> word32 list" where
  "extend 0 ws = ws"
| "extend (Suc n) ws =
     extend n ((small_sigma1 (ws ! 1) + ws ! 6 + small_sigma0 (ws ! 14) + ws ! 15) # ws)"

definition schedule :: "word32 list \<Rightarrow> word32 list" where
  "schedule block = rev (extend 48 (rev block))"

fun round_step :: "word32 list \<Rightarrow> word32 \<times> word32 \<Rightarrow> word32 list" where
  "round_step [a, b, c, d, e, f, g, h] (k, w) =
     (let t1 = h + big_sigma1 e + Ch e f g + k + w; t2 = big_sigma0 a + Maj a b c in
      [t1 + t2, a, b, c, d + t1, e, f, g])"
| "round_step st kw = st"

definition compress :: "word32 list \<Rightarrow> word32 list \<Rightarrow> word32 list" where
  "compress st block = map2 (+) st (foldl round_step st (zip round_constants (schedule block)))"

fun process :: "nat \<Rightarrow> word32 list \<Rightarrow> word32 list \<Rightarrow> word32 list" where
  "process 0 st ws = st"
| "process (Suc n) st ws = process n (compress st (take 16 ws)) (drop 16 ws)"

definition Sum256 :: "bytes \<Rightarrow> bytes" where
  "Sum256 m = (let ws = words_of (pad m) in
     concat (map word_bytes (process (length ws div 16) initial_hash ws)))"

lemma length_round_step [simp]: "length (round_step st kw) = length st"
  by (induction st kw rule: round_step.induct) (simp_all add: Let_def)

lemma length_rounds [simp]: "length (foldl round_step st kws) = length st"
  by (induction kws arbitrary: st) simp_all

lemma length_process [simp]: "length (process n st ws) = length st"
  by (induction n arbitrary: st ws) (simp_all add: compress_def)

lemma length_Sum256 [simp]: "length (Sum256 m) = 32"
proof -
  have "length (concat (map word_bytes ws)) = 4 * length ws" for ws
    by (induction ws) (simp_all add: word_bytes_def)
  then show ?thesis by (simp add: Sum256_def Let_def)
qed

text \<open>The first test vector of the standard.\<close>

lemma Sum256_abc:
  "hex_encode (Sum256 (bytes_of ''abc'')) =
     ''ba7816bf8f01cfea414140de5dae2223b00361a396177a9cb410ff61f20015ad''"
  by code_simp

end
