(* ===== verification/Content.thy ===== *)
theory Content
  imports Sha256 PatternWords Utf8Tokens
begin

text \<open>
  Fingerprints of result sets (\<open>content/content.go\<close>): the token classes, the credential filter, the keyed
  hash and the scan. The parameter \<open>lower\<close> is \<open>strings.ToLower\<close> on strings that are not ASCII. None is
  the panic of \<open>MustCompile\<close> at package initialisation, which does not happen.
\<close>

section \<open>Patterns\<close>

record classPattern =
  cp_class :: string
  cp_re :: regexp
  cp_lower :: bool

definition mk_class :: "string \<Rightarrow> string \<Rightarrow> bool \<Rightarrow> classPattern option" where
  "mk_class name pattern low = do {
     re \<leftarrow> MustCompile (raw pattern);
     Some \<lparr>cp_class = name, cp_re = re, cp_lower = low\<rparr>
   }"

definition patterns :: "classPattern list option" where
  "patterns = those
     [mk_class ''uuid''
        ''[0-9a-fA-F]{8}-[0-9a-fA-F]{4}-[0-9a-fA-F]{4}-[0-9a-fA-F]{4}-[0-9a-fA-F]{12}'' True,
      mk_class ''email'' ''[A-Za-z0-9._%+`-]+@[A-Za-z0-9.`-]+`.[A-Za-z]{2,}'' True,
      mk_class ''jwt'' ''eyJ[A-Za-z0-9_`-]+`.[A-Za-z0-9_`-]+`.[A-Za-z0-9_`-]+'' False,
      mk_class ''hexdigest'' ''`b[0-9a-fA-F]{32,64}`b'' True,
      mk_class ''opaque'' ''[A-Za-z0-9_`-]{20,}'' False]"

definition credBlock :: "regexp option" where
  "credBlock =
     MustCompile (raw ''(?i)(bearer |authorization|password|secret|apikey|api_key|set-cookie)'')"

section \<open>The hasher\<close>

record hasher =
  key :: bytes

definition NewHasher :: "string \<Rightarrow> hasher" where
  "NewHasher secret = \<lparr>key = Sum256 (bytes_of (''dbfw-cdfc|'' @ secret))\<rparr>"

definition token :: "hasher \<Rightarrow> string \<Rightarrow> string \<Rightarrow> string" where
  "token h class canon =
     (let buf = key h @ [byte_of_char CHR ''|''] @ bytes_of class @ [byte_of_char CHR '':''] @ bytes_of canon;
          sum = Sum256 buf
      in class @ '':'' @ hex_encode (take 12 sum))"

text \<open>
  The two loops of \<open>Fingerprint\<close>: over the matches of one class, and over the classes, with the map of
  the keys already seen and the tokens so far.
\<close>

type_synonym scan_state = "string set \<times> (string \<times> nat) list"

definition canonical :: "(string \<Rightarrow> string) \<Rightarrow> classPattern \<Rightarrow> string \<Rightarrow> string" where
  "canonical lower p m = (if cp_lower p then ToLower lower m else m)"

definition dedup_key :: "string \<Rightarrow> string \<Rightarrow> string" where
  "dedup_key class canon = class @ [CHR 0x00] @ canon"

fun add_matches :: "(string \<Rightarrow> string) \<Rightarrow> hasher \<Rightarrow> classPattern \<Rightarrow> string list \<Rightarrow> scan_state \<Rightarrow> scan_state" where
  "add_matches lower h p [] st = st"
| "add_matches lower h p (m # ms) (seen, toks) =
     (let canon = canonical lower p m; dedup = dedup_key (cp_class p) canon in
      if dedup \<in> seen then add_matches lower h p ms (seen, toks)
      else add_matches lower h p ms
        (insert dedup seen, toks @ [(token h (cp_class p) canon, length canon)]))"

fun scan_classes :: "(string \<Rightarrow> string) \<Rightarrow> hasher \<Rightarrow> classPattern list \<Rightarrow> string \<Rightarrow> scan_state \<Rightarrow> scan_state" where
  "scan_classes lower h [] text st = st"
| "scan_classes lower h (p # ps) text st =
     scan_classes lower h ps text (add_matches lower h p (FindAllString (cp_re p) text) st)"

text \<open>\<open>sort.SliceStable\<close> by decreasing length. An absent result (\<open>nil\<close>) is the empty list.\<close>

definition longest_first :: "(string \<times> nat) list \<Rightarrow> (string \<times> nat) list" where
  "longest_first toks = sort_key (\<lambda>t. - int (snd t)) toks"

definition Fingerprint :: "(string \<Rightarrow> string) \<Rightarrow> hasher \<Rightarrow> string \<Rightarrow> int \<Rightarrow> string list option" where
  "Fingerprint lower h text maxN = do {
     cred \<leftarrow> credBlock;
     ps \<leftarrow> patterns;
     if text = [] \<or> MatchString cred text then Some []
     else do {
       let toks = longest_first (snd (scan_classes lower h ps text ({}, [])));
       let toks = (if 0 < maxN \<and> maxN < int (length toks) then take (nat maxN) toks else toks);
       Some (map fst toks)
     }
   }"

text \<open>\<open>strings.Join(values, "\n")\<close>.\<close>

fun join_lines :: "string list \<Rightarrow> string" where
  "join_lines [] = []"
| "join_lines [v] = v"
| "join_lines (v # w # vs) = v @ [CHR 0x0A] @ join_lines (w # vs)"

definition FingerprintValues :: "(string \<Rightarrow> string) \<Rightarrow> hasher \<Rightarrow> string list \<Rightarrow> int \<Rightarrow> string list option" where
  "FingerprintValues lower h values maxN =
     (if values = [] then Some [] else Fingerprint lower h (join_lines values) maxN)"

section \<open>The compiled patterns\<close>

lemma patterns_compile: "patterns \<noteq> None"
  by code_simp

definition cred_words :: "string list" where
  "cred_words = [''bearer '', ''authorization'', ''password'', ''secret'', ''apikey'', ''api_key'', ''set-cookie'']"

lemma cred_pattern: "credBlock = Some (one_of True cred_words)"
  by code_simp

section \<open>Credentials\<close>

lemma cred_words_ok: "list_all (\<lambda>w. ascii w \<and> w \<noteq> []) cred_words"
  by code_simp

lemma cred_matches:
  assumes "list_ex (same_word w) cred_words"
  shows "MatchString (one_of True cred_words) (pre @ w @ post)"
proof -
  obtain v where v: "v \<in> set cred_words" "same_word w v" using assms by (auto simp: list_ex_iff)
  then have a: "ascii v" "v \<noteq> []" using cred_words_ok by (auto simp: list_all_iff)
  then have "ascii w" "w \<noteq> []" using v(2) same_word_ascii by (auto simp: same_word_def)
  then show ?thesis by (rule MatchStringI) (rule match_one_of [OF v a])
qed

lemma join_lines_contains: "v \<in> set vs \<Longrightarrow> \<exists>a b. join_lines vs = a @ v @ b"
proof (induction vs rule: join_lines.induct)
  case (3 u w vs)
  show ?case
  proof (cases "v = u")
    case True
    then have "join_lines (u # w # vs) = [] @ v @ CHR 0x0A # join_lines (w # vs)" by simp
    then show ?thesis by blast
  next
    case False
    with 3 obtain a b where "join_lines (w # vs) = a @ v @ b" by auto
    then have "join_lines (u # w # vs) = (u @ CHR 0x0A # a) @ v @ b" by simp
    then show ?thesis by blast
  qed
qed (auto intro: exI [of _ "[]"])

lemma Fingerprint_cred:
  assumes "list_ex (same_word w) cred_words"
  shows "Fingerprint lower h (pre @ w @ post) maxN = Some []"
proof -
  obtain ps where ps: "patterns = Some ps" using patterns_compile by blast
  show ?thesis
    by (simp only: Fingerprint_def cred_pattern ps cred_matches [OF assms] bind.simps simp_thms if_True)
qed

text \<open>
  C33: text that looks like a live credential is never fingerprinted: if one of the credential words occurs
  anywhere, in any case, between any bytes, no token comes out; and one such value among the column
  values of a row suppresses the tokens of the whole row.
\<close>

theorem credentials_never_fingerprinted:
  assumes "list_ex (same_word w) cred_words"
  shows "Fingerprint lower h (pre @ w @ post) maxN = Some []
       \<and> FingerprintValues lower h (vs @ (pre @ w @ post) # ws) maxN = Some []"
proof -
  obtain a b where "join_lines (vs @ (pre @ w @ post) # ws) = a @ (pre @ w @ post) @ b"
    using join_lines_contains [of "pre @ w @ post" "vs @ (pre @ w @ post) # ws"] by auto
  then have "Fingerprint lower h (join_lines (vs @ (pre @ w @ post) # ws)) maxN = Some []"
    using Fingerprint_cred [OF assms, of lower h "a @ pre" "post @ b" maxN] by simp
  then show ?thesis using Fingerprint_cred [OF assms] by (simp add: FingerprintValues_def)
qed

theorem credentials_never_fingerprinted_witness:
  "FingerprintValues id (NewHasher ''k'')
     ([''7f9c2ba4e88f827d616045507605853e''] @ (''my'' @ ''PassWord'' @ ''=x'') # []) 10 = Some []"
proof -
  have "list_ex (same_word ''PassWord'') cred_words" by code_simp
  from credentials_never_fingerprinted [OF this] show ?thesis by blast
qed

section \<open>The scan against its specification\<close>

text \<open>The occurrences of the classes in a text, and a list without repetitions in the order of the first ones.\<close>

definition occurrences :: "(string \<Rightarrow> string) \<Rightarrow> classPattern list \<Rightarrow> string \<Rightarrow> (string \<times> string) list" where
  "occurrences lower ps text =
     concat (map (\<lambda>p. map (\<lambda>m. (cp_class p, canonical lower p m)) (FindAllString (cp_re p) text)) ps)"

definition distinct_first :: "'a list \<Rightarrow> 'a list" where
  "distinct_first xs = rev (remdups (rev xs))"

text \<open>
  The token of a pair by its published form: the class, and 96 bits of the hash of the key and the text
  \<open>|class:value\<close> in hexadecimal; and the length by which tokens are ordered.
\<close>

definition make_token :: "hasher \<Rightarrow> string \<times> string \<Rightarrow> string \<times> nat" where
  "make_token h occ = (case occ of (c, m) \<Rightarrow>
     (c @ '':'' @ hex_encode (take 12 (Sum256 (key h @ bytes_of (''|'' @ c @ '':'' @ m)))), length m))"

lemma make_token_eq: "make_token h (c, m) = (token h c m, length m)"
  by (simp add: make_token_def token_def Let_def bytes_of_def)

definition limit :: "int \<Rightarrow> 'a list \<Rightarrow> 'a list" where
  "limit n xs = (if 0 < n then take (nat n) xs else xs)"

lemma distinct_first_snoc:
  "distinct_first (xs @ [x]) = (if x \<in> set xs then distinct_first xs else distinct_first xs @ [x])"
  by (simp add: distinct_first_def)

lemma dedup_key_inj:
  assumes "no_nul a" and "no_nul b"
  shows "dedup_key a x = dedup_key b y \<longleftrightarrow> a = b \<and> x = y"
proof
  assume e: "dedup_key a x = dedup_key b y"
  have "takeWhile (\<lambda>c. c \<noteq> CHR 0x00) (dedup_key c z) = c" if "no_nul c" for c z
    using that by (simp add: dedup_key_def no_nul_def takeWhile_append2)
  with assms e have "a = b" by metis
  with e show "a = b \<and> x = y" by (simp add: dedup_key_def)
qed simp

definition scan_inv :: "hasher \<Rightarrow> (string \<times> string) list \<Rightarrow> scan_state \<Rightarrow> bool" where
  "scan_inv h occs st \<longleftrightarrow> list_all (\<lambda>(c, m). no_nul c) occs
     \<and> st = ((\<lambda>(c, m). dedup_key c m) ` set occs, map (make_token h) (distinct_first occs))"

lemma add_matches_inv:
  assumes "scan_inv h occs st" and "no_nul (cp_class p)"
  shows "scan_inv h (occs @ map (\<lambda>m. (cp_class p, canonical lower p m)) ms) (add_matches lower h p ms st)"
  using assms(1)
proof (induction ms arbitrary: occs st)
  case (Cons m ms)
  obtain seen toks where st: "st = (seen, toks)" by (cases st)
  let ?c = "canonical lower p m"
  have nul: "list_all (\<lambda>(c, m). no_nul c) occs" using Cons.prems by (simp add: scan_inv_def)
  have "dedup_key (cp_class p) ?c \<in> seen \<longleftrightarrow> (cp_class p, ?c) \<in> set occs"
    using Cons.prems nul assms(2) dedup_key_inj
    by (force simp: scan_inv_def st list_all_iff)
  then have "scan_inv h (occs @ [(cp_class p, ?c)])
      (if dedup_key (cp_class p) ?c \<in> seen then (seen, toks)
       else (insert (dedup_key (cp_class p) ?c) seen, toks @ [(token h (cp_class p) ?c, length ?c)]))"
    using Cons.prems assms(2)
    by (auto simp: scan_inv_def st distinct_first_snoc make_token_eq)
  from Cons.IH [OF this] show ?case
    by (simp add: st Let_def split: if_splits)
qed simp

lemma scan_classes_inv:
  assumes "scan_inv h occs st" and "list_all (\<lambda>p. no_nul (cp_class p)) ps"
  shows "scan_inv h (occs @ occurrences lower ps text) (scan_classes lower h ps text st)"
  using assms
proof (induction ps arbitrary: occs st)
  case (Cons p ps)
  have p: "no_nul (cp_class p)" "list_all (\<lambda>p. no_nul (cp_class p)) ps" using Cons.prems(2) by simp_all
  from Cons.IH [OF add_matches_inv [OF Cons.prems(1) p(1), of lower "FindAllString (cp_re p) text"] p(2)]
  show ?case by (simp add: occurrences_def)
qed (simp add: occurrences_def)

lemma classes_no_nul:
  "map_option (\<lambda>ps. list_all (\<lambda>p. no_nul (cp_class p)) ps \<and> map cp_class ps
     = [''uuid'', ''email'', ''jwt'', ''hexdigest'', ''opaque'']) patterns = Some True"
  by code_simp

lemma patterns_cases:
  obtains ps where "patterns = Some ps" "list_all (\<lambda>p. no_nul (cp_class p)) ps"
    "map cp_class ps = [''uuid'', ''email'', ''jwt'', ''hexdigest'', ''opaque'']"
  using classes_no_nul by auto

lemma Fingerprint_eq:
  assumes "text \<noteq> []" and "\<not> MatchString (one_of True cred_words) text" and "patterns = Some ps"
    and "list_all (\<lambda>p. no_nul (cp_class p)) ps"
  shows "Fingerprint lower h text maxN = Some (map fst (limit maxN (longest_first
     (map (make_token h) (distinct_first (occurrences lower ps text))))))"
proof -
  have "scan_inv h [] ({}, [])" by (simp add: scan_inv_def distinct_first_def)
  from scan_classes_inv [OF this assms(4), of lower "text"]
  have scan: "snd (scan_classes lower h ps text ({}, []))
      = map (make_token h) (distinct_first (occurrences lower ps text))"
    by (simp add: scan_inv_def)
  have lim: "(if 0 < n \<and> n < int (length xs) then take (nat n) xs else xs) = limit n xs"
    for n and xs :: "(string \<times> nat) list"
    by (auto simp: limit_def)
  show ?thesis using assms(1,2)
    by (simp only: Fingerprint_def cred_pattern assms(3) bind.simps simp_thms if_False scan Let_def lim)
qed

text \<open>
  C15: the scan with its map of seen keys computes its specification. On any text that is not empty and
  shows no credential, the result is the occurrences of the five classes in the order of classes and
  positions, each (class, canonical value) pair kept once at its first place, hashed, stably sorted by
  decreasing length of the value and cut to \<open>maxN\<close> if that is positive.
\<close>

theorem Fingerprint_refines:
  assumes "text \<noteq> []" and "\<not> MatchString (the credBlock) text"
  shows "Fingerprint lower h text maxN = Some (map fst (limit maxN (longest_first
     (map (make_token h) (distinct_first (occurrences lower (the patterns) text))))))"
proof -
  obtain ps where ps: "patterns = Some ps" "list_all (\<lambda>p. no_nul (cp_class p)) ps" by (rule patterns_cases)
  have "\<not> MatchString (one_of True cred_words) text" using assms(2) unfolding cred_pattern option.sel .
  from Fingerprint_eq [OF assms(1) this ps] show ?thesis by (simp only: ps option.sel)
qed

definition row_text :: string where
  "row_text = ''a@b.io,x@y.org,A@B.io''"

theorem Fingerprint_refines_witness:
  "Fingerprint id (NewHasher ''k'') row_text 1 = Some [token (NewHasher ''k'') ''email'' ''x@y.org'']"
proof -
  have "row_text \<noteq> []" "\<not> MatchString (the credBlock) row_text" by code_simp+
  note r = Fingerprint_refines [OF this, of id "NewHasher ''k''" 1]
  have o: "distinct_first (occurrences id (the patterns) row_text) = [(''email'', ''a@b.io''), (''email'', ''x@y.org'')]"
    by code_simp
  show ?thesis unfolding r o by (simp add: make_token_eq longest_first_def limit_def)
qed

text \<open>The shape of a token.\<close>

definition token_ok :: "string \<Rightarrow> bool" where
  "token_ok t \<longleftrightarrow> list_ex (\<lambda>c. take (length c + 1) t = c @ '':'' \<and> length t = length c + 25
       \<and> list_all (\<lambda>d. d \<in> set ''0123456789abcdef'') (drop (length c + 1) t))
     [''uuid'', ''email'', ''jwt'', ''hexdigest'', ''opaque'']"

lemma set_limit: "set (limit n xs) \<subseteq> set xs"
  unfolding limit_def by (simp add: set_take_subset)

lemma hex_digits: "list_all (\<lambda>d. d \<in> set ''0123456789abcdef'') (hex_encode bs)"
proof -
  have "digit_char n \<in> set ''0123456789abcdef''" for n
    unfolding digit_char_def by (rule nth_mem) simp
  then show ?thesis by (induction bs) (simp_all add: hex_encode_def hex2_def del: list.set)
qed

lemma token_shape:
  assumes "c \<in> set [''uuid'', ''email'', ''jwt'', ''hexdigest'', ''opaque'']"
  shows "token_ok (token h c m)"
proof -
  define d where "d = hex_encode (take 12 (Sum256 (key h @ [byte_of_char CHR ''|''] @ bytes_of c
    @ [byte_of_char CHR '':''] @ bytes_of m)))"
  have d: "length d = 24" "list_all (\<lambda>x. x \<in> set ''0123456789abcdef'') d"
    unfolding d_def by (simp, rule hex_digits)
  have "token h c m = c @ '':'' @ d" by (simp add: token_def d_def Let_def)
  moreover have "take (length c + 1) (c @ '':'' @ d) = c @ '':''" "drop (length c + 1) (c @ '':'' @ d) = d"
    "length (c @ '':'' @ d) = length c + 25"
    using d(1) by simp_all
  ultimately show ?thesis using assms d(2)
    unfolding token_ok_def list_ex_iff by (intro bexI [of _ c]) (simp_all only:)
qed

text \<open>
  C34: the scan never panics, returns at most \<open>maxN\<close> tokens when \<open>maxN\<close> is positive, and discloses nothing
  but hashes: every token is one of the five class names, a colon and 24 hexadecimal digits, whatever
  the text and the key.
\<close>

theorem fingerprint_tokens_shape:
  "\<exists>ts. Fingerprint lower h text maxN = Some ts \<and> list_all token_ok ts
     \<and> (maxN \<le> 0 \<or> length ts \<le> nat maxN)"
proof (cases "text = [] \<or> MatchString (one_of True cred_words) text")
  case True
  obtain ps where ps: "patterns = Some ps" by (rule patterns_cases)
  have "Fingerprint lower h text maxN = Some []"
    using True by (simp only: Fingerprint_def cred_pattern ps bind.simps if_True)
  then show ?thesis by simp
next
  case False
  obtain ps where ps: "patterns = Some ps" "list_all (\<lambda>p. no_nul (cp_class p)) ps"
    "map cp_class ps = [''uuid'', ''email'', ''jwt'', ''hexdigest'', ''opaque'']" by (rule patterns_cases)
  let ?occs = "distinct_first (occurrences lower ps text)"
  let ?ts = "map fst (limit maxN (longest_first (map (make_token h) ?occs)))"
  have "Fingerprint lower h text maxN = Some ?ts" using False by (intro Fingerprint_eq ps(1,2)) simp_all
  moreover have "list_all token_ok ?ts"
    unfolding list_all_iff
  proof
    fix t assume "t \<in> set ?ts"
    then obtain x where x: "x \<in> set (limit maxN (longest_first (map (make_token h) ?occs)))" "t = fst x"
      by (metis (no_types, lifting) image_iff list.set_map)
    from subsetD [OF set_limit x(1)] have "x \<in> set (map (make_token h) ?occs)"
      by (simp only: longest_first_def set_sort)
    with x(2) obtain c m where t: "t = token h c m" "(c, m) \<in> set (occurrences lower ps text)"
      by (auto simp: make_token_eq distinct_first_def)
    then have "c \<in> set (map cp_class ps)" by (auto simp: occurrences_def)
    then show "token_ok t" unfolding ps(3) t(1) by (rule token_shape)
  qed
  moreover have "maxN \<le> 0 \<or> length ?ts \<le> nat maxN" by (auto simp: limit_def)
  ultimately show ?thesis by blast
qed

section \<open>Matches are ASCII\<close>

lemma classes_ascii:
  "map_option (list_all (\<lambda>p. ascii_only (cp_re p))) patterns = Some True"
  by code_simp

lemma canonical_ascii: "ascii m \<Longrightarrow> canonical lower p m = (if cp_lower p then map lower_char m else m)"
  by (simp add: canonical_def ToLower_def)

lemma add_matches_ascii:
  "list_all ascii ms \<Longrightarrow> add_matches lower h p ms st = add_matches lower' h p ms st"
  by (induction lower h p ms st rule: add_matches.induct) (simp_all add: Let_def canonical_ascii)

lemma scan_classes_ascii:
  "list_all (\<lambda>p. ascii_only (cp_re p)) ps \<Longrightarrow> scan_classes lower h ps text st = scan_classes lower' h ps text st"
proof (induction ps arbitrary: st)
  case (Cons p ps)
  then have "list_all ascii (FindAllString (cp_re p) text)"
    using FindAllString_ascii by (auto simp: list_all_iff)
  from add_matches_ascii [OF this, of lower h p st lower'] Cons show ?case by simp
qed simp

text \<open>
  C32: whatever bytes the text contains, every value a token class finds in it is ASCII, and its canonical
  form is the value itself, lower-cased byte by byte in the classes that say so; hence the choice of
  \<open>strings.ToLower\<close> beyond ASCII makes no difference to the tokens. (The credential filter in front of the
  scan does fold Unicode case, see \<open>credential_long_s\<close>.)
\<close>

theorem fingerprint_values_ascii:
  "\<exists>ps. patterns = Some ps
     \<and> list_all (\<lambda>p. list_all (\<lambda>m. ascii m \<and> canonical lower p m = (if cp_lower p then map lower_char m else m))
         (FindAllString (cp_re p) text)) ps
     \<and> Fingerprint lower h text maxN = Fingerprint lower' h text maxN
     \<and> FingerprintValues lower h vs maxN = FingerprintValues lower' h vs maxN"
proof -
  obtain ps where ps: "patterns = Some ps" "list_all (\<lambda>p. ascii_only (cp_re p)) ps"
    using classes_ascii by auto
  have "ascii m" if "p \<in> set ps" "m \<in> set (FindAllString (cp_re p) text)" for p m
    using that ps(2) FindAllString_ascii by (auto simp: list_all_iff)
  then have "list_all (\<lambda>p. list_all (\<lambda>m. ascii m \<and> canonical lower p m = (if cp_lower p then map lower_char m else m))
         (FindAllString (cp_re p) text)) ps"
    unfolding list_all_iff using canonical_ascii by blast
  moreover have "Fingerprint lower h t maxN = Fingerprint lower' h t maxN" for t
    using scan_classes_ascii [OF ps(2), of lower h t _ lower'] by (simp add: Fingerprint_def ps(1) cong: if_cong)
  ultimately show ?thesis
    by (intro exI [of _ ps] conjI ps(1)) (simp_all only: FingerprintValues_def)
qed

text \<open>The filter takes the long s (U+017F, bytes C5 BF) for an s.\<close>

lemma credential_long_s:
  "Fingerprint lower h (''pa'' @ [CHR 0xC5, CHR 0xBF] @ ''sword=abcdefghijklmnopqrstuvwxyz'') maxN = Some []"
proof -
  have "MatchString (one_of True cred_words) (''pa'' @ [CHR 0xC5, CHR 0xBF] @ ''sword=abcdefghijklmnopqrstuvwxyz'')"
    by code_simp
  moreover obtain ps where ps: "patterns = Some ps" by (rule patterns_cases)
  ultimately show ?thesis
    by (simp only: Fingerprint_def cred_pattern ps bind.simps simp_thms if_True)
qed

end
