(* ===== verification/MySQLPacket.thy ===== *)
theory MySQLPacket
  imports GoIO
begin

text \<open>
  Framing of the MySQL wire protocol (\<open>protocol/mysql/packet.go\<close>) and the error packet
  (\<open>protocol/mysql/error.go\<close>): a packet is a 3-byte little-endian length, a sequence number and the
  payload; a fragment of the maximal length is continued by the next one. The reader works over any
  \<open>io.Reader\<close>; its lemmas are proved over the flat stream and carried to every lawful reader.
\<close>

definition HeaderLen :: nat where
  "HeaderLen = 4"

definition MaxPayloadLen :: nat where
  "MaxPayloadLen = 2 ^ 24 - 1"

record mysql_packet =
  my_Seq :: byte
  my_Payload :: bytes
  my_Raw :: bytes

section \<open>Reading\<close>

text \<open>The length of the header: \<open>int(hdr[0]) | int(hdr[1])<<8 | int(hdr[2])<<16\<close>.\<close>

definition header_length :: "bytes \<Rightarrow> nat" where
  "header_length hdr =
     (unat (hdr ! 0) OR push_bit 8 (unat (hdr ! 1))) OR push_bit 16 (unat (hdr ! 2))"

text \<open>One wire packet: raw bytes, payload, sequence number, and whether it is continued.\<close>

definition mysql_readFragment ::
  "'s reader \<Rightarrow> 's \<Rightarrow> ((go_error + bytes \<times> bytes \<times> byte \<times> bool) \<times> 's) option"
where
  "mysql_readFragment rd s = do {
     (hdr, err, s1) \<leftarrow> ReadFull rd HeaderLen s;
     (case err of
        Some e \<Rightarrow> Some (Inl e, s1)
      | None \<Rightarrow> do {
          let len = header_length hdr;
          let seq = hdr ! 3;
          (body, err, s2) \<leftarrow> ReadFull rd len s1;
          (case err of
             Some e \<Rightarrow> Some (Inl (WrapErr (''read payload ('' @ show_nat len @ '' bytes)'') e), s2)
           | None \<Rightarrow> Some (Inr (hdr @ body, body, seq, len = MaxPayloadLen), s2))
        })
   }"

text \<open>The loop over the continuation fragments, with the two growing buffers.\<close>

partial_function (option) mysql_continue ::
  "'s reader \<Rightarrow> bytes \<Rightarrow> bytes \<Rightarrow> 's \<Rightarrow> ((go_error + mysql_packet) \<times> 's) option"
where
  "mysql_continue rd rawBuf payloadBuf s = do {
     (r, s1) \<leftarrow> mysql_readFragment rd s;
     (case r of
        Inl e \<Rightarrow> Some (Inl (WrapErr ''read packet continuation'' e), s1)
      | Inr (raw, payload, seq, cont) \<Rightarrow>
          if cont then mysql_continue rd (rawBuf @ raw) (payloadBuf @ payload) s1
          else Some (Inr \<lparr>my_Seq = seq, my_Payload = payloadBuf @ payload,
                          my_Raw = rawBuf @ raw\<rparr>, s1))
   }"

declare mysql_continue.simps [code]

definition mysql_ReadPacket :: "'s reader \<Rightarrow> 's \<Rightarrow> ((go_error + mysql_packet) \<times> 's) option" where
  "mysql_ReadPacket rd s = do {
     (r, s1) \<leftarrow> mysql_readFragment rd s;
     (case r of
        Inl e \<Rightarrow> Some (Inl e, s1)
      | Inr (raw, payload, seq, cont) \<Rightarrow>
          if \<not> cont then Some (Inr \<lparr>my_Seq = seq, my_Payload = payload, my_Raw = raw\<rparr>, s1)
          else mysql_continue rd raw payload s1)
   }"

section \<open>The fragment reader on a flat stream\<close>

lemma header_length_eq:
  assumes "4 \<le> length hdr"
  shows "header_length hdr = le_val (take 3 hdr)"
proof -
  obtain a b c d r where hdr: "hdr = a # b # c # d # r"
    using assms by (auto simp: numeral_eq_Suc Suc_le_length_iff)
  have "unat a < 2 ^ 8" "unat a + 2 ^ 8 * unat b < 2 ^ 16"
    using unat_byte_lt [of a] unat_byte_lt [of b] by (simp_all, linarith)
  note or_push_bit [OF this(1), of "unat b"] or_push_bit [OF this(2), of "unat c"]
  then have "(unat a OR push_bit 8 (unat b)) OR push_bit 16 (unat c)
      = unat a + 2 ^ 8 * unat b + 2 ^ 16 * unat c" by simp
  moreover have "take 3 hdr = [a, b, c]" "hdr ! 0 = a" "hdr ! 1 = b" "hdr ! 2 = c"
    by (simp_all add: hdr numeral_eq_Suc)
  ultimately show ?thesis by (simp add: header_length_def)
qed

lemma header_length_le: "4 \<le> length hdr \<Longrightarrow> header_length hdr \<le> MaxPayloadLen"
  using le_val_lt [of "take 3 hdr"] by (simp add: header_length_eq MaxPayloadLen_def)

lemma readFragment_stream:
  "mysql_readFragment stream_read (bs, e) = Some (
     if length bs < 4
     then (Inl (if bs \<noteq> [] \<and> e = EOF then UnexpectedEOF else e), ([], e))
     else let n = le_val (take 3 bs) in
       if length bs < 4 + n
       then (Inl (WrapErr (''read payload ('' @ show_nat n @ '' bytes)'')
               (if drop 4 bs \<noteq> [] \<and> e = EOF then UnexpectedEOF else e)), ([], e))
       else (Inr (take (4 + n) bs, take n (drop 4 bs), bs ! 3, n = MaxPayloadLen),
             (drop (4 + n) bs, e)))"
proof (cases "length bs < 4")
  case True
  then show ?thesis by (simp add: mysql_readFragment_def HeaderLen_def ReadFull_stream)
next
  case False
  have len: "header_length (take 4 bs) = le_val (take 3 bs)"
    using False by (simp add: header_length_eq min_def)
  show ?thesis
    using False
    by (auto simp: mysql_readFragment_def HeaderLen_def ReadFull_stream len Let_def take_add
        add.commute)
qed

text \<open>The wire form of one fragment.\<close>

definition mysql_frame :: "byte \<Rightarrow> bytes \<Rightarrow> bytes" where
  "mysql_frame seq payload = le_bytes 3 (length payload) @ [seq] @ payload"

lemma length_mysql_frame [simp]: "length (mysql_frame seq p) = 4 + length p"
  by (simp add: mysql_frame_def)

lemma drop_mysql_frame [simp]: "drop 4 (mysql_frame seq p) = p"
  by (simp add: mysql_frame_def)

lemma readFragment_frame:
  assumes "length p \<le> MaxPayloadLen"
  shows "mysql_readFragment stream_read (mysql_frame seq p @ rest, e) =
           Some (Inr (mysql_frame seq p, p, seq, length p = MaxPayloadLen), (rest, e))"
proof -
  have n: "le_val (take 3 (mysql_frame seq p @ rest)) = length p"
    using assms by (simp add: mysql_frame_def le_val_bytes MaxPayloadLen_def)
  have nth: "(mysql_frame seq p @ rest) ! 3 = seq"
    by (simp add: mysql_frame_def nth_append)
  have body: "take (length p) (drop 4 (mysql_frame seq p @ rest)) = p"
    by simp
  show ?thesis
    unfolding readFragment_stream n nth body by (simp add: Let_def)
qed

text \<open>What a successful fragment consumed.\<close>

lemma readFragment_InrD:
  assumes "mysql_readFragment stream_read (bs, e) = Some (Inr (raw, payload, seq, cont), (bs', e'))"
  shows "bs = raw @ bs'" and "raw = mysql_frame seq payload" and "e' = e"
    and "cont \<longleftrightarrow> length payload = MaxPayloadLen" and "length payload \<le> MaxPayloadLen"
proof -
  let ?n = "le_val (take 3 bs)"
  have len: "4 \<le> length bs" "4 + ?n \<le> length bs"
    and raw: "raw = take (4 + ?n) bs" "payload = take ?n (drop 4 bs)" "seq = bs ! 3"
      "cont \<longleftrightarrow> ?n = MaxPayloadLen" "bs' = drop (4 + ?n) bs" "e' = e"
    using assms by (auto simp: readFragment_stream Let_def split: if_splits)
  from len raw show "bs = raw @ bs'" "e' = e" by simp_all
  have lp: "length payload = ?n" using len raw by simp
  then show "cont \<longleftrightarrow> length payload = MaxPayloadLen" using raw by simp
  have "?n < 256 ^ 3" using le_val_lt [of "take 3 bs"] len by simp
  then show "length payload \<le> MaxPayloadLen" using lp by (simp add: MaxPayloadLen_def)
  have "le_bytes 3 ?n = take 3 bs"
    using le_bytes_val [of "take 3 bs"] len by simp
  moreover have "take 4 bs = take 3 bs @ [bs ! 3]"
    using len take_Suc_conv_app_nth [of 3 bs] by simp
  ultimately show "raw = mysql_frame seq payload"
    using raw lp by (simp add: mysql_frame_def take_add)
qed

section \<open>Whole packets on a flat stream\<close>

text \<open>
  The wire form of a logical packet: full fragments as long as the rest is not shorter than the
  maximum, then a shorter one (possibly empty), with consecutive sequence numbers.
\<close>

lemma MaxPayloadLen_pos [simp]: "0 < MaxPayloadLen"
  by (simp add: MaxPayloadLen_def)

function mysql_encode :: "byte \<Rightarrow> bytes \<Rightarrow> bytes" where
  "mysql_encode seq p =
     (if length p < MaxPayloadLen then mysql_frame seq p
      else mysql_frame seq (take MaxPayloadLen p) @ mysql_encode (seq + 1) (drop MaxPayloadLen p))"
  by pat_completeness auto
termination
proof (relation "measure (\<lambda>(seq, p). length p)", simp)
  fix seq :: byte and p :: bytes
  assume "\<not> length p < MaxPayloadLen"
  then show "((seq + 1, drop MaxPayloadLen p), seq, p) \<in> measure (\<lambda>(seq, p). length p)"
    using MaxPayloadLen_pos by (simp del: MaxPayloadLen_pos)
qed

declare mysql_encode.simps [simp del]

lemma mysql_encode_nonempty: "[] \<noteq> mysql_encode seq p"
  by (subst mysql_encode.simps) (simp add: mysql_frame_def)

text \<open>A run of fragments, as (sequence number, payload) pairs, that makes up one logical packet.\<close>

definition fragment_run :: "(byte \<times> bytes) list \<Rightarrow> bool" where
  "fragment_run frs \<longleftrightarrow> frs \<noteq> [] \<and> length (snd (last frs)) < MaxPayloadLen
     \<and> (\<forall>f \<in> set (butlast frs). length (snd f) = MaxPayloadLen)"

definition run_bytes :: "(byte \<times> bytes) list \<Rightarrow> bytes" where
  "run_bytes frs = concat (map (\<lambda>(q, p). mysql_frame q p) frs)"

lemma run_bytes_simps [simp]:
  "run_bytes [] = []" "run_bytes (f # frs) = mysql_frame (fst f) (snd f) @ run_bytes frs"
  by (simp_all add: run_bytes_def case_prod_beta)

lemma fragment_run_Cons:
  "fragment_run (f # frs) \<longleftrightarrow>
     (if frs = [] then length (snd f) < MaxPayloadLen
      else length (snd f) = MaxPayloadLen \<and> fragment_run frs)"
  by (auto simp: fragment_run_def)

definition run_packet :: "(byte \<times> bytes) list \<Rightarrow> mysql_packet" where
  "run_packet frs = \<lparr>my_Seq = fst (last frs), my_Payload = concat (map snd frs), my_Raw = run_bytes frs\<rparr>"

text \<open>The reader accepts exactly the runs of fragments: completeness, then soundness.\<close>

lemma mysql_continue_run:
  assumes "fragment_run frs"
  shows "mysql_continue stream_read rb pb (run_bytes frs @ rest, e) =
           Some (Inr \<lparr>my_Seq = fst (last frs), my_Payload = pb @ concat (map snd frs),
                      my_Raw = rb @ run_bytes frs\<rparr>, (rest, e))"
  using assms
proof (induction frs arbitrary: rb pb)
  case Nil
  then show ?case by (simp add: fragment_run_def)
next
  case (Cons f frs)
  then have len: "length (snd f) \<le> MaxPayloadLen"
    by (auto simp: fragment_run_Cons split: if_splits)
  note frag = readFragment_frame [OF len, of "fst f" "run_bytes frs @ rest" e]
  show ?case
  proof (cases "frs = []")
    case True
    then show ?thesis using Cons.prems frag
      by (simp add: mysql_continue.simps [of _ rb] fragment_run_Cons)
  next
    case False
    then show ?thesis using Cons frag
      by (simp add: mysql_continue.simps [of _ rb] fragment_run_Cons)
  qed
qed

lemma mysql_ReadPacket_run:
  assumes "fragment_run frs"
  shows "mysql_ReadPacket stream_read (run_bytes frs @ rest, e) =
           Some (Inr (run_packet frs), (rest, e))"
proof (cases frs)
  case Nil
  then show ?thesis using assms by (simp add: fragment_run_def)
next
  case (Cons f fs)
  then have len: "length (snd f) \<le> MaxPayloadLen"
    using assms by (auto simp: fragment_run_Cons split: if_splits)
  note frag = readFragment_frame [OF len, of "fst f" "run_bytes fs @ rest" e]
  show ?thesis
  proof (cases "fs = []")
    case True
    then show ?thesis using assms frag Cons
      by (simp add: mysql_ReadPacket_def fragment_run_Cons run_packet_def)
  next
    case False
    then show ?thesis using assms frag Cons mysql_continue_run [of fs]
      by (simp add: mysql_ReadPacket_def fragment_run_Cons run_packet_def)
  qed
qed

lemma mysql_continue_sound:
  "mysql_continue stream_read rb pb (bs, e) = Some (Inr pkt, (bs', e')) \<Longrightarrow>
     \<exists>frs. fragment_run frs \<and> bs = run_bytes frs @ bs' \<and> e' = e
       \<and> pkt = \<lparr>my_Seq = fst (last frs), my_Payload = pb @ concat (map snd frs),
                my_Raw = rb @ run_bytes frs\<rparr>"
proof (induction "length bs" arbitrary: bs rb pb rule: less_induct)
  case less
  from less.prems obtain raw payload seq cont bs1 e1 where
    frag: "mysql_readFragment stream_read (bs, e) = Some (Inr (raw, payload, seq, cont), (bs1, e1))"
    by (subst (asm) mysql_continue.simps) (auto split: bind_splits sum.splits prod.splits)
  note fr = readFragment_InrD [OF frag]
  show ?case
  proof (cases cont)
    case False
    with less.prems frag fr show ?thesis
      by (intro exI [of _ "[(seq, payload)]"])
        (simp add: mysql_continue.simps [of _ rb] fragment_run_Cons)
  next
    case True
    have "mysql_continue stream_read (rb @ raw) (pb @ payload) (bs1, e) = Some (Inr pkt, (bs', e'))"
      using less.prems frag fr(3) True by (simp add: mysql_continue.simps [of _ rb])
    then obtain frs where "fragment_run frs" "bs1 = run_bytes frs @ bs'" "e' = e"
      "pkt = \<lparr>my_Seq = fst (last frs), my_Payload = (pb @ payload) @ concat (map snd frs),
              my_Raw = (rb @ raw) @ run_bytes frs\<rparr>"
      using less.hyps [of bs1 "rb @ raw" "pb @ payload"] fr(1,2) by auto
    moreover from this have "frs \<noteq> []" by (simp add: fragment_run_def)
    ultimately show ?thesis using True fr
      by (intro exI [of _ "(seq, payload) # frs"]) (simp add: fragment_run_Cons)
  qed
qed

lemma mysql_ReadPacket_sound:
  assumes "mysql_ReadPacket stream_read (bs, e) = Some (Inr pkt, (bs', e'))"
  shows "\<exists>frs. fragment_run frs \<and> bs = run_bytes frs @ bs' \<and> e' = e \<and> pkt = run_packet frs"
proof -
  from assms obtain raw payload seq cont bs1 e1 where
    frag: "mysql_readFragment stream_read (bs, e) = Some (Inr (raw, payload, seq, cont), (bs1, e1))"
    by (auto simp: mysql_ReadPacket_def split: bind_splits sum.splits prod.splits)
  note fr = readFragment_InrD [OF frag]
  show ?thesis
  proof (cases cont)
    case False
    with assms frag fr show ?thesis
      by (intro exI [of _ "[(seq, payload)]"])
        (simp add: mysql_ReadPacket_def fragment_run_Cons run_packet_def)
  next
    case True
    have "mysql_continue stream_read raw payload (bs1, e) = Some (Inr pkt, (bs', e'))"
      using assms frag fr(3) True by (simp add: mysql_ReadPacket_def)
    from mysql_continue_sound [OF this] obtain frs where "fragment_run frs"
      "bs1 = run_bytes frs @ bs'" "e' = e"
      "pkt = \<lparr>my_Seq = fst (last frs), my_Payload = payload @ concat (map snd frs),
              my_Raw = raw @ run_bytes frs\<rparr>" by blast
    moreover from this have "frs \<noteq> []" by (simp add: fragment_run_def)
    ultimately show ?thesis using True fr
      by (intro exI [of _ "(seq, payload) # frs"]) (simp add: fragment_run_Cons run_packet_def)
  qed
qed

text \<open>The fragments of the encoder are a run, with \<open>length p div MaxPayloadLen\<close> continuations.\<close>

lemma mysql_encode_run:
  "\<exists>frs. fragment_run frs \<and> run_bytes frs = mysql_encode seq p \<and> concat (map snd frs) = p
     \<and> fst (last frs) = seq + of_nat (length p div MaxPayloadLen)"
proof (induction seq p rule: mysql_encode.induct)
  case (1 seq p)
  show ?case
  proof (cases "length p < MaxPayloadLen")
    case True
    then show ?thesis
      by (intro exI [of _ "[(seq, p)]"]) (simp add: fragment_run_Cons mysql_encode.simps [of seq])
  next
    case False
    then obtain frs where "fragment_run frs"
      "run_bytes frs = mysql_encode (seq + 1) (drop MaxPayloadLen p)"
      "concat (map snd frs) = drop MaxPayloadLen p"
      "fst (last frs) = seq + 1 + of_nat ((length p - MaxPayloadLen) div MaxPayloadLen)"
      using 1 by auto
    moreover from this have "frs \<noteq> []" by (simp add: fragment_run_def)
    moreover have "length p div MaxPayloadLen = Suc ((length p - MaxPayloadLen) div MaxPayloadLen)"
      using False by (simp add: le_div_geq)
    ultimately show ?thesis using False
      by (intro exI [of _ "(seq, take MaxPayloadLen p) # frs"])
        (simp add: fragment_run_Cons mysql_encode.simps [of seq p] add.assoc)
  qed
qed

text \<open>An error in a continuation is always wrapped.\<close>

lemma mysql_continue_error:
  "mysql_continue stream_read rb pb (bs, e) = Some (Inl err, s') \<Longrightarrow>
     \<exists>x. err = WrapErr ''read packet continuation'' x"
proof (induction "length bs" arbitrary: bs rb pb rule: less_induct)
  case less
  obtain r bs1 e1 where frag: "mysql_readFragment stream_read (bs, e) = Some (r, (bs1, e1))"
    by (metis readFragment_stream surj_pair)
  show ?case
  proof (cases r)
    case (Inl x)
    with frag less.prems show ?thesis by (auto simp: mysql_continue.simps [of _ rb])
  next
    case (Inr f)
    obtain raw payload seq cont where f: "f = (raw, payload, seq, cont)" by (cases f)
    note fr = readFragment_InrD [OF frag [unfolded Inr f]]
    then have "length bs1 < length bs" by simp
    from less.hyps [OF this, of "rb @ raw" "pb @ payload"] less.prems frag Inr f fr(3) show ?thesis
      by (simp add: mysql_continue.simps [of _ rb] split: if_splits)
  qed
qed

section \<open>Any reader\<close>

text \<open>The framer returns on every flat stream: each continued fragment consumes a header.\<close>

lemma mysql_continue_returns: "\<exists>r. mysql_continue stream_read rb pb (bs, e) = Some r"
proof (induction "length bs" arbitrary: bs rb pb rule: less_induct)
  case less
  obtain r bs1 e1 where frag: "mysql_readFragment stream_read (bs, e) = Some (r, (bs1, e1))"
    by (metis readFragment_stream surj_pair)
  show ?case
  proof (cases r)
    case (Inl x)
    with frag show ?thesis by (simp add: mysql_continue.simps [of _ rb])
  next
    case (Inr f)
    obtain raw payload seq cont where f: "f = (raw, payload, seq, cont)" by (cases f)
    note fr = readFragment_InrD [OF frag [unfolded Inr f]]
    then have "length bs1 < length bs" by simp
    from less.hyps [OF this, of "rb @ raw" "pb @ payload"] frag Inr f fr(3) show ?thesis
      by (simp add: mysql_continue.simps [of _ rb])
  qed
qed

lemma mysql_ReadPacket_returns: "\<exists>r. mysql_ReadPacket stream_read (bs, e) = Some r"
proof -
  obtain r bs1 e1 where frag: "mysql_readFragment stream_read (bs, e) = Some (r, (bs1, e1))"
    by (metis readFragment_stream surj_pair)
  then show ?thesis
    using mysql_continue_returns [of _ _ bs1 e1]
    by (auto simp: mysql_ReadPacket_def split: sum.splits)
qed

context byte_reader
begin

lemma mysql_readFragment_simulates:
  assumes "ok s"
  shows "\<exists>r s'. mysql_readFragment read s = Some (r, s') \<and> ok s' \<and> final s' = final s
     \<and> mysql_readFragment stream_read (contents s, final s) = Some (r, (contents s', final s'))"
proof -
  obtain hdr err s1 where h: "ReadFull read HeaderLen s = Some (hdr, err, s1)" "ok s1"
    "final s1 = final s"
    "ReadFull stream_read HeaderLen (contents s, final s) = Some (hdr, err, (contents s1, final s1))"
    by (rule ReadFull_simE [OF assms])
  obtain body err2 s2 where b: "ReadFull read (header_length hdr) s1 = Some (body, err2, s2)"
    "ok s2" "final s2 = final s1"
    "ReadFull stream_read (header_length hdr) (contents s1, final s1) =
       Some (body, err2, (contents s2, final s2))"
    by (rule ReadFull_simE [OF h(2)])
  show ?thesis
  proof (cases err)
    case (Some x)
    with h show ?thesis by (simp add: mysql_readFragment_def)
  next
    case None
    with h b show ?thesis by (cases err2) (simp_all add: mysql_readFragment_def Let_def)
  qed
qed

lemma mysql_continue_simulates:
  "ok s \<Longrightarrow> \<exists>r s'. mysql_continue read rb pb s = Some (r, s') \<and> ok s' \<and> final s' = final s
     \<and> mysql_continue stream_read rb pb (contents s, final s) = Some (r, (contents s', final s'))"
proof (induction "length (contents s)" arbitrary: s rb pb rule: less_induct)
  case less
  obtain r s1 where frag: "mysql_readFragment read s = Some (r, s1)" "ok s1" "final s1 = final s"
    "mysql_readFragment stream_read (contents s, final s) = Some (r, (contents s1, final s1))"
    using mysql_readFragment_simulates [OF less.prems] by blast
  show ?case
  proof (cases r)
    case (Inl x)
    with frag show ?thesis by (simp add: mysql_continue.simps [of _ rb])
  next
    case (Inr f)
    obtain raw payload seq cont where f: "f = (raw, payload, seq, cont)" by (cases f)
    note fr = readFragment_InrD [OF frag(4) [unfolded Inr f]]
    then have "length (contents s1) < length (contents s)" by simp
    from less.hyps [OF this frag(2), of "rb @ raw" "pb @ payload"] frag Inr f show ?thesis
      by (simp add: mysql_continue.simps [of _ rb])
  qed
qed

lemma mysql_ReadPacket_simulates:
  assumes "ok s"
  shows "\<exists>r s'. mysql_ReadPacket read s = Some (r, s') \<and> ok s' \<and> final s' = final s
     \<and> mysql_ReadPacket stream_read (contents s, final s) = Some (r, (contents s', final s'))"
proof -
  obtain r s1 where frag: "mysql_readFragment read s = Some (r, s1)" "ok s1" "final s1 = final s"
    "mysql_readFragment stream_read (contents s, final s) = Some (r, (contents s1, final s1))"
    using mysql_readFragment_simulates [OF assms] by blast
  show ?thesis
  proof (cases r)
    case (Inl x)
    with frag show ?thesis by (simp add: mysql_ReadPacket_def)
  next
    case (Inr f)
    obtain raw payload seq cont where f: "f = (raw, payload, seq, cont)" by (cases f)
    from mysql_continue_simulates [OF frag(2), of raw payload] frag Inr f show ?thesis
      by (simp add: mysql_ReadPacket_def)
  qed
qed

lemma mysql_ReadPacket_reader_sound:
  assumes "ok s" and "mysql_ReadPacket read s = Some (Inr pkt, s')"
  shows "\<exists>frs. fragment_run frs \<and> contents s = run_bytes frs @ contents s' \<and> pkt = run_packet frs"
  using mysql_ReadPacket_simulates [OF assms(1)] assms(2) mysql_ReadPacket_sound by fastforce

lemma mysql_ReadPacket_reader_run:
  assumes "ok s" and "contents s = run_bytes frs @ rest" and "fragment_run frs"
  shows "\<exists>s'. mysql_ReadPacket read s = Some (Inr (run_packet frs), s') \<and> ok s' \<and> contents s' = rest
           \<and> final s' = final s"
  using mysql_ReadPacket_simulates [OF assms(1)] mysql_ReadPacket_run [OF assms(3)] assms(2) by fastforce

end

section \<open>The error packet\<close>

definition BuildErrorPacket :: "byte \<Rightarrow> 16 word \<Rightarrow> string \<Rightarrow> string \<Rightarrow> bytes" where
  "BuildErrorPacket seq code sqlState message =
     (let payload = [0xFF] @ [ucast code, ucast (drop_bit 8 code)] @ [byte_of_char CHR ''#'']
                    @ take 5 (bytes_of sqlState @ replicate 5 0) @ bytes_of message;
          pktLen = length payload
      in [of_nat pktLen, of_nat (drop_bit 8 pktLen), of_nat (drop_bit 16 pktLen), seq] @ payload)"

text \<open>The payload the packet is meant to carry.\<close>

definition error_payload :: "16 word \<Rightarrow> string \<Rightarrow> string \<Rightarrow> bytes" where
  "error_payload code sqlState message =
     0xFF # le_bytes 2 (unat code) @ byte_of_char CHR ''#''
       # take 5 (bytes_of sqlState @ replicate 5 0) @ bytes_of message"

lemma of_nat_mod_256 [simp]: "(of_nat (n mod 256) :: byte) = of_nat n"
  by (simp add: word_unat_eq_iff unat_of_nat_byte)

lemma le_bytes_3: "[of_nat n, of_nat (drop_bit 8 n), of_nat (drop_bit 16 n)] = le_bytes 3 n"
  by (simp add: numeral_3_eq_3 drop_bit_eq_div div_mult2_eq [symmetric])

lemma le_bytes_2_ucast: "[ucast code, ucast (drop_bit 8 code)] = le_bytes 2 (unat (code :: 16 word))"
proof -
  have "unat (drop_bit 8 code) = unat code div 256"
    by (simp only: unat_drop_bit_eq) (simp add: drop_bit_eq_div)
  then show ?thesis
    by (simp add: numeral_2_eq_2 word_unat_eq_iff unat_of_nat_byte unsigned_ucast_eq take_bit_eq_mod)
qed

lemma length_error_payload [simp]: "length (error_payload c st m) = 9 + length m"
  by (simp add: error_payload_def)

lemma BuildErrorPacket_frame:
  "BuildErrorPacket seq code st m =
     le_bytes 3 (9 + length m) @ [seq] @ error_payload code st m"
proof -
  have "[0xFF] @ [ucast code, ucast (drop_bit 8 code)] @ [byte_of_char CHR ''#'']
      @ take 5 (bytes_of st @ replicate 5 0) @ bytes_of m = error_payload code st m"
    by (simp add: error_payload_def le_bytes_2_ucast [symmetric])
  moreover have "[of_nat n, of_nat (drop_bit 8 n), of_nat (drop_bit 16 n), seq] @ q
      = le_bytes 3 n @ [seq] @ q" for n q
    by (simp add: le_bytes_3 [symmetric])
  ultimately show ?thesis
    by (simp only: BuildErrorPacket_def Let_def length_error_payload)
qed

section \<open>Properties\<close>

text \<open>
  C7: A packet read off any connection, however its bytes are segmented, is verbatim: \<open>Raw\<close> is
  exactly the bytes consumed, it is a run of fragments (all but the last of maximal length, the last
  shorter), \<open>Payload\<close> is the concatenation of their bodies and \<open>Seq\<close> the last fragment's number.
\<close>

theorem mysql_read_verbatim:
  assumes "conn_ok c" and "mysql_ReadPacket conn_read c = Some (Inr pkt, c')"
  shows "conn_bytes c = my_Raw pkt @ conn_bytes c'
       \<and> (\<exists>frs. fragment_run frs \<and> my_Raw pkt = run_bytes frs
            \<and> my_Payload pkt = concat (map snd frs) \<and> my_Seq pkt = fst (last frs))"
  using conn.mysql_ReadPacket_reader_sound [OF assms] by (auto simp: run_packet_def)

definition conn_example :: conn where
  "conn_example = \<lparr>segments = [[2, 0], [0, 7, 3, 65], [9]], close_err = EOF\<rparr>"

theorem mysql_read_verbatim_witness:
  "mysql_ReadPacket conn_read conn_example =
     Some (Inr \<lparr>my_Seq = 7, my_Payload = [3, 65], my_Raw = [2, 0, 0, 7, 3, 65]\<rparr>,
           \<lparr>segments = [[9]], close_err = EOF\<rparr>)
   \<and> conn_bytes conn_example = [2, 0, 0, 7, 3, 65] @ [9]"
proof -
  have ok: "conn_ok conn_example" by (simp add: conn_ok_def conn_example_def)
  have rd: "mysql_ReadPacket conn_read conn_example =
     Some (Inr \<lparr>my_Seq = 7, my_Payload = [3, 65], my_Raw = [2, 0, 0, 7, 3, 65]\<rparr>,
           \<lparr>segments = [[9]], close_err = EOF\<rparr>)"
    by (simp add: conn_example_def mysql_ReadPacket_def mysql_readFragment_def ReadFull_def
        read_loop.simps HeaderLen_def MaxPayloadLen_def conn_read_def header_length_def or_push_bit
        cong: option.case_cong_weak)
  from mysql_read_verbatim [OF ok rd] rd show ?thesis by (simp add: conn_bytes_def)
qed

text \<open>
  C8: Round trip through the framing: whatever the segmentation of the connection, reading the wire
  form of a payload of any length (split into maximal fragments) returns that payload, the bytes of
  the wire form as \<open>Raw\<close>, the sequence number of the last fragment, and leaves what follows unread.
\<close>

theorem mysql_encode_read:
  assumes "conn_ok c" and "conn_bytes c = mysql_encode seq p @ rest"
  shows "\<exists>c'. mysql_ReadPacket conn_read c =
             Some (Inr \<lparr>my_Seq = seq + of_nat (length p div MaxPayloadLen), my_Payload = p,
                        my_Raw = mysql_encode seq p\<rparr>, c')
           \<and> conn_ok c' \<and> conn_bytes c' = rest"
proof -
  obtain frs where frs: "fragment_run frs" "run_bytes frs = mysql_encode seq p"
    "concat (map snd frs) = p" "fst (last frs) = seq + of_nat (length p div MaxPayloadLen)"
    using mysql_encode_run by blast
  with conn.mysql_ReadPacket_reader_run [OF assms(1), of frs rest] assms(2) show ?thesis
    by (auto simp: run_packet_def)
qed

theorem mysql_encode_read_witness:
  "\<exists>c'. mysql_ReadPacket conn_read
          \<lparr>segments = [mysql_encode 0 (replicate (2 ^ 24) 0x61), [1, 2]], close_err = EOF\<rparr> =
        Some (Inr \<lparr>my_Seq = 1, my_Payload = replicate (2 ^ 24) 0x61,
                   my_Raw = mysql_encode 0 (replicate (2 ^ 24) 0x61)\<rparr>, c')
      \<and> conn_ok c' \<and> conn_bytes c' = [1, 2]"
proof -
  let ?p = "replicate (2 ^ 24) 0x61 :: bytes"
  have ok: "conn_ok \<lparr>segments = [mysql_encode 0 ?p, [1, 2]], close_err = EOF\<rparr>"
    using mysql_encode_nonempty [of 0 ?p] by (simp add: conn_ok_def)
  have len: "length ?p div MaxPayloadLen = 1"
    unfolding length_replicate MaxPayloadLen_def by simp
  have bytes: "conn_bytes \<lparr>segments = [mysql_encode 0 ?p, [1, 2]], close_err = EOF\<rparr>
      = mysql_encode 0 ?p @ [1, 2]"
    by (simp add: conn_bytes_def)
  from mysql_encode_read [OF ok bytes] show ?thesis unfolding len by simp
qed

text \<open>
  On a connection that is closed in order, the bare \<open>io.EOF\<close> is returned exactly when nothing was
  left to read: the detection of a closed connection by \<open>err == io.EOF\<close> is exact.
\<close>

theorem mysql_clean_eof:
  assumes "mysql_ReadPacket stream_read (bs, EOF) = Some (Inl err, s')"
  shows "err = EOF \<longleftrightarrow> bs = []"
proof (cases "length bs < 4")
  case True
  then show ?thesis using assms
    by (auto simp: mysql_ReadPacket_def readFragment_stream split: if_splits)
next
  case False
  then have "bs \<noteq> []" by auto
  moreover have "err \<noteq> EOF"
    using assms False
    by (auto simp: mysql_ReadPacket_def readFragment_stream Let_def dest!: mysql_continue_error
        split: if_splits)
  ultimately show ?thesis by simp
qed

theorem mysql_clean_eof_witness:
  "mysql_ReadPacket stream_read ([5, 0, 0, 0, 65], EOF) =
     Some (Inl (WrapErr ''read payload (5 bytes)'' UnexpectedEOF), ([], EOF))
   \<and> WrapErr ''read payload (5 bytes)'' UnexpectedEOF \<noteq> EOF"
proof -
  have rd: "mysql_ReadPacket stream_read ([5, 0, 0, 0, 65], EOF) =
     Some (Inl (WrapErr ''read payload (5 bytes)'' UnexpectedEOF), ([], EOF))"
    by (simp add: mysql_ReadPacket_def readFragment_stream show_nat.simps digit_char_def)
  from mysql_clean_eof [OF rd] rd show ?thesis by simp
qed

text \<open>
  Truncation right after a header is not reported as \<open>io.ErrUnexpectedEOF\<close>: when the stream ends
  after a header that announces a payload, the error wraps \<open>io.EOF\<close>, so \<open>errors.Is(err, io.EOF)\<close>
  holds and \<open>errors.Is(err, io.ErrUnexpectedEOF)\<close> does not, contrary to the comment of \<open>ReadPacket\<close>.
\<close>

theorem mysql_header_only_is_eof:
  assumes "length hdr = 4" and "0 < le_val (take 3 hdr)"
  shows "\<exists>err. mysql_ReadPacket stream_read (hdr, EOF) = Some (Inl err, ([], EOF))
           \<and> errors_Is err EOF \<and> \<not> errors_Is err UnexpectedEOF"
  using assms by (simp add: mysql_ReadPacket_def readFragment_stream Let_def)

theorem mysql_header_only_is_eof_witness:
  "\<exists>err. mysql_ReadPacket stream_read ([5, 0, 0, 0], EOF) = Some (Inl err, ([], EOF))
      \<and> errors_Is err EOF \<and> \<not> errors_Is err UnexpectedEOF"
  by (rule mysql_header_only_is_eof) simp_all

text \<open>
  C30: An error packet whose payload fits one fragment is read back by the framer as one packet with
  the given sequence number, whose payload is the marker 0xFF, the error code in little-endian, the
  marker \<open>#\<close>, the SQL state cut or zero-padded to five bytes, and the message.
\<close>

theorem error_packet_read:
  assumes "9 + length m < MaxPayloadLen"
  shows "mysql_ReadPacket stream_read (BuildErrorPacket seq code st m @ rest, e) =
           Some (Inr \<lparr>my_Seq = seq, my_Payload = error_payload code st m,
                      my_Raw = BuildErrorPacket seq code st m\<rparr>, (rest, e))"
proof -
  have "BuildErrorPacket seq code st m = run_bytes [(seq, error_payload code st m)]"
    by (simp add: BuildErrorPacket_frame mysql_frame_def)
  moreover have "fragment_run [(seq, error_payload code st m)]"
    using assms by (simp add: fragment_run_Cons)
  ultimately show ?thesis
    using mysql_ReadPacket_run [of "[(seq, error_payload code st m)]" rest e]
    by (simp add: run_packet_def)
qed

theorem error_packet_read_witness:
  "mysql_ReadPacket stream_read (BuildErrorPacket 1 1045 ''42000'' ''denied'' @ [7], EOF) =
     Some (Inr \<lparr>my_Seq = 1, my_Payload = error_payload 1045 ''42000'' ''denied'',
                my_Raw = BuildErrorPacket 1 1045 ''42000'' ''denied''\<rparr>, ([7], EOF))"
  by (rule error_packet_read) (simp add: MaxPayloadLen_def)

end
