(* ===== verification/TLSUtil.thy ===== *)
theory TLSUtil
  imports MySQLPacket PostgresPacket MongoPacket
begin

text \<open>
  The connection with a prefix put back in front, used after protocol detection, the self-signed
  certificate (\<open>tlsutil/tlsutil.go\<close>), and the dialling of the backend (\<open>backend/backend.go\<close>). The
  cryptographic generators, the clock and the network are parameters.
\<close>

section \<open>The prefixed connection\<close>

record 'c PrefixedConn =
  Conn :: 'c
  Prefix :: bytes
  offset :: nat

definition PrefixedConn_Read :: "'c reader \<Rightarrow> 'c PrefixedConn reader" where
  "PrefixedConn_Read rd p n =
     (if offset p < length (Prefix p)
      then let bs = take n (drop (offset p) (Prefix p)) in (bs, None, p\<lparr>offset := offset p + length bs\<rparr>)
      else (case rd (Conn p) n of (bs, e, c) \<Rightarrow> (bs, e, p\<lparr>Conn := c\<rparr>)))"

text \<open>A reader that is wrapped this way is a lawful reader again.\<close>

definition prefixed_bytes :: "('c \<Rightarrow> bytes) \<Rightarrow> 'c PrefixedConn \<Rightarrow> bytes" where
  "prefixed_bytes cont p = drop (offset p) (Prefix p) @ cont (Conn p)"

locale wrapped_reader = byte_reader
begin

lemma wrapped_laws:
  "byte_reader (PrefixedConn_Read read) (prefixed_bytes contents) (\<lambda>p. final (Conn p))
     (\<lambda>p. ok (Conn p) \<and> offset p \<le> length (Prefix p))"
proof
  fix p n bs e p'
  assume p: "ok (Conn p) \<and> offset p \<le> length (Prefix p)" and n: "0 < n"
    and r: "PrefixedConn_Read read p n = (bs, e, p')"
  have inner: "\<exists>c. read (Conn p) n = (bs, e, c) \<and> p' = p\<lparr>Conn := c\<rparr>" if "\<not> offset p < length (Prefix p)"
    using r that by (auto simp: PrefixedConn_Read_def split: prod.splits)
  have outer: "bs = take n (drop (offset p) (Prefix p)) \<and> e = None \<and> p' = p\<lparr>offset := offset p + length bs\<rparr>"
    if "offset p < length (Prefix p)"
    using r that by (auto simp: PrefixedConn_Read_def Let_def)
  show "prefixed_bytes contents p = bs @ prefixed_bytes contents p' \<and> length bs \<le> n"
  proof (cases "offset p < length (Prefix p)")
    case True
    then show ?thesis using outer append_take_drop_id [of n "drop (offset p) (Prefix p)"]
      by (auto simp: prefixed_bytes_def add.commute min_def)
  next
    case False
    then show ?thesis using inner read_bytes [of "Conn p" n bs e] p n by (auto simp: prefixed_bytes_def)
  qed
  show "(ok (Conn p') \<and> offset p' \<le> length (Prefix p')) \<and> final (Conn p') = final (Conn p)"
  proof (cases "offset p < length (Prefix p)")
    case True
    then show ?thesis using outer p by auto
  next
    case False
    then show ?thesis using inner read_ok [of "Conn p" n bs e] p n by auto
  qed
next
  fix p n bs p'
  assume p: "ok (Conn p) \<and> offset p \<le> length (Prefix p)" and n: "0 < n"
    and r: "PrefixedConn_Read read p n = (bs, None, p')"
  then show "bs \<noteq> []" using read_progress [of "Conn p" n bs]
    by (auto simp: PrefixedConn_Read_def Let_def split: if_splits prod.splits)
next
  fix p n bs er p'
  assume p: "ok (Conn p) \<and> offset p \<le> length (Prefix p)" and n: "0 < n"
    and r: "PrefixedConn_Read read p n = (bs, Some er, p')"
  then show "er = final (Conn p) \<and> prefixed_bytes contents p' = []"
    using read_error [of "Conn p" n bs er]
    by (auto simp: PrefixedConn_Read_def Let_def prefixed_bytes_def split: if_splits prod.splits)
qed

end

sublocale wrapped_reader \<subseteq> prefixed: byte_reader "PrefixedConn_Read read" "prefixed_bytes contents"
  "\<lambda>p. final (Conn p)" "\<lambda>p. ok (Conn p) \<and> offset p \<le> length (Prefix p)"
  by (rule wrapped_laws)

interpretation sniffed: wrapped_reader conn_read conn_bytes close_err conn_ok
  by unfold_locales

text \<open>
  C14: putting bytes back is transparent to the three protocol readers: after any number of bytes has been
  read off a connection for detection and wrapped in front of it, each framer returns on the wrapped
  connection exactly what it would have returned on the untouched one, packet or error, and leaves the
  same bytes unread; no framer panics or hangs on either.
\<close>

theorem put_back_transparent:
  assumes "conn_ok c" and "ReadFull conn_read n c = Some (hdr, err, c1)"
  shows "(\<exists>r c2 p2. mysql_ReadPacket conn_read c = Some (r, c2)
           \<and> mysql_ReadPacket (PrefixedConn_Read conn_read) \<lparr>Conn = c1, Prefix = hdr, offset = 0\<rparr> = Some (r, p2)
           \<and> prefixed_bytes conn_bytes p2 = conn_bytes c2)
       \<and> (\<exists>r c2 p2. pg_ReadPacket conn_read c = Some (r, c2)
           \<and> pg_ReadPacket (PrefixedConn_Read conn_read) \<lparr>Conn = c1, Prefix = hdr, offset = 0\<rparr> = Some (r, p2)
           \<and> prefixed_bytes conn_bytes p2 = conn_bytes c2)
       \<and> (\<exists>r c2 p2. mongo_ReadPacket conn_read c = Some (r, c2)
           \<and> mongo_ReadPacket (PrefixedConn_Read conn_read) \<lparr>Conn = c1, Prefix = hdr, offset = 0\<rparr> = Some (r, p2)
           \<and> prefixed_bytes conn_bytes p2 = conn_bytes c2)"
proof -
  let ?p = "\<lparr>Conn = c1, Prefix = hdr, offset = 0\<rparr>"
  obtain s' where s': "ReadFull conn_read n c = Some (take n (conn_bytes c),
      if n \<le> length (conn_bytes c) then None
      else if conn_bytes c \<noteq> [] \<and> close_err c = EOF then Some UnexpectedEOF else Some (close_err c), s')"
    "conn_ok s'" "close_err s' = close_err c" "conn_bytes s' = drop n (conn_bytes c)"
    using conn.ReadFull_reader [OF assms(1), of n] by blast
  with assms(2) have ok: "conn_ok (Conn ?p) \<and> offset ?p \<le> length (Prefix ?p)"
    and bytes: "prefixed_bytes conn_bytes ?p = conn_bytes c" and fin: "close_err (Conn ?p) = close_err c"
    by (auto simp: prefixed_bytes_def)
  show ?thesis
    using conn.mysql_ReadPacket_simulates [OF assms(1)] conn.pg_ReadPacket_simulates [OF assms(1)]
      conn.mongo_ReadPacket_simulates [OF assms(1)]
      sniffed.prefixed.mysql_ReadPacket_simulates [OF ok, unfolded bytes fin]
      sniffed.prefixed.pg_ReadPacket_simulates [OF ok, unfolded bytes fin]
      sniffed.prefixed.mongo_ReadPacket_simulates [OF ok, unfolded bytes fin]
    by (intro conjI) (metis option.inject prod.inject)+
qed

theorem put_back_transparent_witness:
  "\<exists>hdr c1 r p2. ReadFull conn_read 3 \<lparr>segments = [[2, 0], [0, 7, 3, 65], [9]], close_err = EOF\<rparr> = Some (hdr, None, c1)
     \<and> mysql_ReadPacket (PrefixedConn_Read conn_read) \<lparr>Conn = c1, Prefix = hdr, offset = 0\<rparr> = Some (r, p2)
     \<and> r = Inr \<lparr>my_Seq = 7, my_Payload = [3, 65], my_Raw = [2, 0, 0, 7, 3, 65]\<rparr>
     \<and> prefixed_bytes conn_bytes p2 = [9]"
proof -
  let ?c = "\<lparr>segments = [[2, 0], [0, 7, 3, 65], [9]], close_err = EOF\<rparr>"
  have ok: "conn_ok ?c" by (simp add: conn_ok_def)
  have rf: "ReadFull conn_read 3 ?c = Some ([2, 0, 0], None, \<lparr>segments = [[7, 3, 65], [9]], close_err = EOF\<rparr>)"
    by (simp add: ReadFull_def read_loop.simps conn_read_def)
  have rd: "mysql_ReadPacket conn_read ?c = Some (Inr \<lparr>my_Seq = 7, my_Payload = [3, 65],
      my_Raw = [2, 0, 0, 7, 3, 65]\<rparr>, \<lparr>segments = [[9]], close_err = EOF\<rparr>)"
    by (simp add: mysql_ReadPacket_def mysql_readFragment_def HeaderLen_def header_length_def
        MaxPayloadLen_def ReadFull_def read_loop.simps conn_read_def cong: option.case_cong_weak)
  from put_back_transparent [OF ok rf] rd rf show ?thesis by (auto simp: conn_bytes_def)
qed

section \<open>The self-signed certificate\<close>

text \<open>Times in nanoseconds.\<close>

record certificate_template =
  SerialNumber :: int
  CommonName :: string
  NotBefore :: int
  NotAfter :: int
  KeyUsage :: "string list"
  ExtKeyUsage :: "string list"
  IPAddresses :: "nat list list"

record 'k tls_certificate =
  Certificate :: "bytes list"
  PrivateKey :: 'k

definition minute :: int where "minute = 60 * 1000000000"
definition hour :: int where "hour = 60 * minute"

definition cert_template :: "int \<Rightarrow> int \<Rightarrow> int \<Rightarrow> certificate_template" where
  "cert_template serial now1 now2 =
     \<lparr>SerialNumber = serial, CommonName = ''DBFW Proxy'', NotBefore = now1 - minute,
      NotAfter = now2 + 10 * 365 * 24 * hour, KeyUsage = [''KeyEncipherment'', ''DigitalSignature''],
      ExtKeyUsage = [''ServerAuth''], IPAddresses = [[127, 0, 0, 1]]\<rparr>"

text \<open>
  \<open>genKey\<close>, \<open>randInt\<close> (below a bound) and \<open>create\<close> are \<open>rsa.GenerateKey\<close>, \<open>rand.Int\<close> and
  \<open>x509.CreateCertificate\<close> with the template as its own parent; \<open>now1\<close> and \<open>now2\<close> are the two readings
  of the clock.
\<close>

definition GenerateSelfSignedCert ::
  "(nat \<Rightarrow> go_error + 'k) \<Rightarrow> (int \<Rightarrow> go_error + int) \<Rightarrow> int \<Rightarrow> int \<Rightarrow> (certificate_template \<Rightarrow> 'k \<Rightarrow> go_error + bytes) \<Rightarrow>
     go_error + 'k tls_certificate"
where
  "GenerateSelfSignedCert genKey randInt now1 now2 create =
     (case genKey 2048 of
        Inl e \<Rightarrow> Inl (WrapErr ''generate key'' e)
      | Inr key \<Rightarrow> (case randInt (2 ^ 128) of
          Inl e \<Rightarrow> Inl (WrapErr ''generate serial'' e)
        | Inr serial \<Rightarrow> (case create (cert_template serial now1 now2) key of
            Inl e \<Rightarrow> Inl (WrapErr ''create certificate'' e)
          | Inr der \<Rightarrow> Inr \<lparr>Certificate = [der], PrivateKey = key\<rparr>)))"

section \<open>The backend\<close>

record Config =
  Addr :: string
  DialTimeout :: int

definition DefaultConfig :: Config where
  "DefaultConfig = \<lparr>Addr = ''127.0.0.1:3306'', DialTimeout = 5 * 1000000000\<rparr>"

text \<open>\<open>dial\<close> is \<open>net.DialTimeout\<close>.\<close>

definition Dial :: "(string \<Rightarrow> string \<Rightarrow> int \<Rightarrow> go_error + 'c) \<Rightarrow> Config \<Rightarrow> go_error + 'c" where
  "Dial dial cfg = (case dial ''tcp'' (Addr cfg) (DialTimeout cfg) of
     Inl e \<Rightarrow> Inl (WrapErr (''dial backend '' @ Addr cfg) e)
   | Inr c \<Rightarrow> Inr c)"

text \<open>
  the causes of failures survive: an error of the dialler or of the generators comes back wrapped, so
  \<open>errors.Is\<close> still finds it, and the certificate is only built from a key, a serial number and a
  signature that were all obtained; its validity starts before and ends ten years after the clock.
\<close>

theorem tls_backend_errors:
  "(case Dial dial cfg of
      Inl e \<Rightarrow> \<exists>cause. dial ''tcp'' (Addr cfg) (DialTimeout cfg) = Inl cause \<and> errors_Is e cause
    | Inr c \<Rightarrow> dial ''tcp'' (Addr cfg) (DialTimeout cfg) = Inr c)
 \<and> (case GenerateSelfSignedCert genKey randInt now1 now2 create of
      Inl e \<Rightarrow> \<exists>cause. errors_Is e cause \<and>
        (genKey 2048 = Inl cause \<or> randInt (2 ^ 128) = Inl cause
         \<or> (\<exists>t k. create t k = Inl cause))
    | Inr crt \<Rightarrow> \<exists>serial t der. genKey 2048 = Inr (PrivateKey crt) \<and> randInt (2 ^ 128) = Inr serial
        \<and> create t (PrivateKey crt) = Inr der \<and> Certificate crt = [der]
        \<and> SerialNumber t = serial \<and> NotBefore t < now1 \<and> NotAfter t = now2 + 315360000000000000)"
proof -
  have r: "errors_Is (WrapErr m e) e" for m e by (cases e) auto
  have v: "NotBefore (cert_template s now1 now2) < now1" "NotAfter (cert_template s now1 now2) = now2 + 315360000000000000"
    "SerialNumber (cert_template s now1 now2) = s" for s
    by (simp_all add: cert_template_def minute_def hour_def)
  show ?thesis
    using r v by (fastforce simp: Dial_def GenerateSelfSignedCert_def split: sum.split)
qed

end
