(* ===== verification/Spec2Isabelle.thy ===== *)
theory Spec2Isabelle
  imports MySQLStmt MySQLHandshake PostgresQuery MongoRules RuleSets RegexpFuel EngineTrace Console Content TLSUtil
begin

text \<open>
  A verification library for the core of the database firewall agent, a Go program (\<open>src/\<close>) that stands
  between clients and a MySQL, PostgreSQL or MongoDB server, reads their wire protocols, decides each
  statement by a list of rules and reports to a management console. The repository is the library those
  agents are made of: the proxies themselves are elsewhere and call the functions modelled here.

  \<^bold>\<open>How the parts interact.\<close> A proxy frames the client's bytes into packets (\<open>protocol/*/packet.go\<close>), forwards
  \<open>Raw\<close> untouched, and extracts the text of the statement: \<open>ExtractQuery\<close> and the prepared-statement
  registry for MySQL, \<open>ExtractSQL\<close> and \<open>ParseParse\<close> for PostgreSQL, \<open>ExtractCommand\<close> and \<open>ToRuleString\<close> for
  MongoDB. The text goes to \<open>Evaluate\<close> or \<open>Decide\<close> of the engine, whose rules are the built-in ones or those
  the console client polls and installs with \<open>Reload\<close>. The decision goes to the engine's event sink, which
  the console client provides; a blocked client gets an error packet of its protocol. Result sets can be
  fingerprinted by \<open>content\<close>. \<open>tlsutil\<close> puts the bytes read for protocol detection back in front of a connection
  and makes certificates; \<open>backend\<close> dials the server.

  \<^bold>\<open>Theories and the code they model.\<close>
  \<^item> \<open>Prelude\<close>: bytes, Go strings, panics, indexing and slicing, \<open>encoding/binary\<close>, number formatting; the
    collections \<open>go_access\<close> (unfolding of indexing and fixed-width reads) and \<open>codec\<close> (values and lengths of
    encodings) that carry the component proofs.
  \<^item> \<open>GoIO\<close>: \<open>io.Reader\<close> as the locale \<open>byte_reader\<close>, and \<open>io.ReadFull\<close>; interpreted on byte streams and on
    connections that deliver arbitrary segments and then end with any error.
  \<^item> \<open>MySQLPacket\<close>: \<open>protocol/mysql/packet.go\<close> and \<open>error.go\<close>. \<open>MySQLCommand\<close>: \<open>command.go\<close> and
    \<open>capabilities.go\<close>. \<open>MySQLHandshake\<close>: \<open>handshake.go\<close>. \<open>MySQLStmt\<close>: \<open>stmt.go\<close>, whose registry is the
    interpretation of the locale \<open>stmt_store\<close>.
  \<^item> \<open>PostgresPacket\<close>, \<open>PostgresQuery\<close>: \<open>protocol/postgres/packet.go\<close> and \<open>query.go\<close>.
  \<^item> \<open>MongoPacket\<close>, \<open>MongoBson\<close>, \<open>MongoOpMsg\<close>: \<open>protocol/mongodb/packet.go\<close>, \<open>bson.go\<close>, \<open>opmsg.go\<close>.
  \<^item> \<open>Regexp\<close>, \<open>RegexpParse\<close>, \<open>RegexpFuel\<close>, \<open>PatternWords\<close>, \<open>RegexpCase\<close>, \<open>RegexpContext\<close>, \<open>Utf8Tokens\<close>: what the
    program uses of package \<open>regexp\<close>: UTF-8 decoding, an executable backtracking matcher proved equal to a
    declarative semantics, the parser of the patterns the program contains, the languages of patterns made
    of words and white space, and criteria for patterns that do not see the case of letters, that match
    inside a larger text, that look at each line on its own, or that match ASCII text only.
  \<^item> \<open>Engine\<close>, \<open>EngineTrace\<close>: \<open>engine/engine.go\<close>; the sequential engine, an instance of the locale
    \<open>first_match\<close>, and its concurrent use as an inductive step relation over the locked sections.
  \<^item> \<open>DefaultRules\<close>, \<open>MongoRules\<close>, \<open>RuleSets\<close>: \<open>engine/rules.go\<close>, \<open>postgres_rules.go\<close>, \<open>mongodb_rules.go\<close>, the
    patterns character by character, and what holds of a rule set as a whole.
  \<^item> \<open>Json\<close>, \<open>Console\<close>: what \<open>console/client.go\<close> uses of \<open>encoding/json\<close>, with a reader of JSON objects as the
    reference, and the client itself. \<open>Sha256\<close>, \<open>Content\<close>: \<open>content/content.go\<close>. \<open>TLSUtil\<close>:
    \<open>tlsutil/tlsutil.go\<close> and \<open>backend/backend.go\<close>, with the locale \<open>wrapped_reader\<close> and a \<open>sublocale\<close> that makes
    a prefixed connection a lawful reader again.
  \<^item> This theory: the properties that go from the bytes on a connection to the verdict.

  \<^bold>\<open>Conventions.\<close> A Go struct is a record (fields that clash carry the protocol's prefix, \<open>my_Raw\<close>), an error a
  value of \<open>go_error\<close>, a function with an error result a sum. A function that indexes or slices returns an
  option whose None is a run-time panic, so that \<open>f x \<noteq> None\<close> says that \<open>f\<close> does not panic; a read loop
  also returns None when it never ends. Integers keep their width where the code's arithmetic can wrap or
  change sign (the 64-bit offsets of the handshake, \<open>skipBSONValue\<close>, length-encoded integers) and are natural
  numbers where lengths of slices bound them. Handlers get the state and return it updated; an engine is
  parameterised by the world its sink acts on.

  \<^bold>\<open>What the lemmas show.\<close>
  \<^item> Framing: every packet is read verbatim, whatever the segmentation, and reading inverts the wire format;
    lengths are bounded; how truncated streams end; the error replies are read back as well-formed packets.
  \<^item> Parsing: the exact domain and result of each parser, absence of panics, or the exact inputs that
    panic; round trips with encoders written for the purpose.
  \<^item> Rules: the matcher's semantics, the engine's first-match policy, the relation of \<open>Evaluate\<close> and \<open>Decide\<close>,
    atomicity of reloads, that the SQL rules do not see letter case and that nothing around an attack hides it
    from them, and the families of statements that the built-in patterns block in any letter case, with any
    white space and between any bytes; also that the rules with a dot see each line of a statement on its own.
  \<^item> Console: what the console reads from an event, which requests are sent, what a failed poll leaves in place.
  \<^item> Content: refinement of the fingerprint scan, its bounds, that the values found are ASCII whatever the text, and
    that credentials suppress tokens.

  \<^bold>\<open>Termination and fuel.\<close> Loops over payloads are functions with termination proofs. The read loops over an
  arbitrary reader are \<open>partial_function\<close>s, shown to return on every lawful reader. The pattern parser
  runs on fuel \<open>3 * length + 4\<close>, three units a character, and \<open>Compile_fuel\<close> of \<open>RegexpFuel\<close> shows that more
  never changes its result; the matcher iterates a star at most as often as tokens remain, since an
  iteration that consumes nothing is cut as in Go.

  \<^bold>\<open>Parameters.\<close> Unicode tables (\<open>strings.EqualFold\<close> and \<open>strings.ToLower\<close> beyond ASCII), HTTP exchange and
  JSON decoding of rules, \<open>regexp.Compile\<close> on patterns of the console, the tickers, the random generator, clock
  and X.509 encoder, and the network are arguments of the definitions that use them.

  \<^bold>\<open>Not modelled.\<close> Log output; the layout of time stamps (a parameter); goroutine scheduling beyond the interleavings of \<open>EngineTrace\<close> and \<open>MySQLStmt\<close>; the syntax of
  \<open>regexp\<close> the program's own patterns do not use; the test files.
\<close>

section \<open>From the wire to the verdict\<close>

text \<open>
  C1: a \<open>DROP\<close> statement sent to MySQL is stopped, from the bytes on the connection to the verdict: the \<open>DROP\<close>
  of one of the seven kinds of objects in \<open>droppable\<close>, in any case and with any white space, standing as words
  anywhere in a COM_QUERY without query attributes. However the client segments the packet and however long
  it is (fragments of the wire format included), the reader returns its payload and the exact bytes to
  forward, \<open>ExtractQuery\<close> returns the statement, and the default rules block it for every user and database.
\<close>

theorem mysql_drop_stopped:
  assumes "conn_ok c"
    and "conn_bytes c = mysql_encode seq (ComQuery # bytes_of (pre @ (d @ ws @ k) @ post)) @ rest"
    and "same_word d ''DROP''" and "is_space ws" and "list_ex (same_word k) droppable"
    and "edge_before pre" and "edge_after post"
  shows "\<exists>pkt c' rs. mysql_ReadPacket conn_read c = Some (Inr pkt, c')
     \<and> conn_bytes c = my_Raw pkt @ rest \<and> conn_bytes c' = rest
     \<and> ExtractQuery (my_Payload pkt) False = Some (pre @ (d @ ws @ k) @ post, True)
     \<and> DefaultRules = Some rs
     \<and> (\<forall>user db. d_Action (Decide fold_rune (New rs :: unit engine) (pre @ (d @ ws @ k) @ post) user db)
          = ActionBlock)"
proof -
  let ?sql = "pre @ (d @ ws @ k) @ post"
  obtain frs where frs: "fragment_run frs" "run_bytes frs = mysql_encode seq (ComQuery # bytes_of ?sql)"
    "concat (map snd frs) = ComQuery # bytes_of ?sql"
    using mysql_encode_run by blast
  obtain c' where c': "mysql_ReadPacket conn_read c = Some (Inr (run_packet frs), c')" "conn_bytes c' = rest"
    using conn.mysql_ReadPacket_reader_run [OF assms(1) _ frs(1), of rest] assms(2) frs(2) by auto
  have "ExtractQuery (my_Payload (run_packet frs)) False = Some (?sql, True)"
    using ExtractQuery_classic frs(3) by (simp add: run_packet_def)
  moreover have "conn_bytes c = my_Raw (run_packet frs) @ rest"
    using assms(2) frs(2) by (simp add: run_packet_def)
  ultimately show ?thesis using c' drop_blocked [OF assms(3-7)] by blast
qed

lemma word_examples:
  "same_word ''Drop'' ''DROP''" "is_space [CHR 0x0A]" "list_ex (same_word ''table'') droppable"
  "edge_before ''SELECT 1; ''" "edge_after '' t''"
  by code_simp+

theorem mysql_drop_stopped_witness:
  "\<exists>pkt c' rs. mysql_ReadPacket conn_read \<lparr>segments = [mysql_encode 0 (ComQuery # bytes_of
         (''SELECT 1; '' @ (''Drop'' @ [CHR 0x0A] @ ''table'') @ '' t'')), [1]], close_err = EOF\<rparr> = Some (Inr pkt, c')
     \<and> conn_bytes c' = [1]
     \<and> ExtractQuery (my_Payload pkt) False
         = Some (''SELECT 1; '' @ (''Drop'' @ [CHR 0x0A] @ ''table'') @ '' t'', True)
     \<and> DefaultRules = Some rs
     \<and> d_Action (Decide ascii_fold (New rs :: unit engine)
         (''SELECT 1; '' @ (''Drop'' @ [CHR 0x0A] @ ''table'') @ '' t'') ''app'' ''shop'') = ActionBlock"
proof -
  let ?sql = "''SELECT 1; '' @ (''Drop'' @ [CHR 0x0A] @ ''table'') @ '' t''"
  let ?c = "\<lparr>segments = [mysql_encode 0 (ComQuery # bytes_of ?sql), [1]], close_err = EOF\<rparr>"
  have "mysql_encode 0 (ComQuery # bytes_of ?sql) \<noteq> []"
    by (subst mysql_encode.simps) (simp add: mysql_frame_def)
  then have "conn_ok ?c" "conn_bytes ?c = mysql_encode 0 (ComQuery # bytes_of ?sql) @ [1]"
    by (simp_all add: conn_ok_def conn_bytes_def)
  from mysql_drop_stopped [OF this word_examples, of ascii_fold] show ?thesis by blast
qed

text \<open>
  C2: the same for PostgreSQL and the same seven kinds of objects: the statement is stopped whether it travels in a simple query or in the Parse
  message of a prepared statement of any name, with any parameter types after it; the name read from the
  Parse message and its text are those the client sent.
\<close>

theorem postgres_drop_stopped:
  assumes "conn_ok c" and "conn_bytes c = pg_frame typ payload @ rest"
    and "4 + length payload \<le> 256 * 1024 * 1024"
    and "sql = pre @ (d @ ws @ k) @ post"
    and "(typ = MsgQuery \<and> payload = bytes_of sql @ [0])
       \<or> (typ = MsgParse \<and> no_nul name \<and> no_nul sql
           \<and> payload = bytes_of name @ 0 # bytes_of sql @ 0 # types)"
    and "same_word d ''DROP''" and "is_space ws" and "list_ex (same_word k) droppable"
    and "edge_before pre" and "edge_after post"
  shows "\<exists>pkt c' rs. pg_ReadPacket conn_read c = Some (Inr pkt, c')
     \<and> conn_bytes c = pg_Raw pkt @ rest \<and> conn_bytes c' = rest
     \<and> ExtractSQL pkt = Some (sql, True)
     \<and> (typ = MsgParse \<longrightarrow> ParseParse pkt = Some (name, sql, True))
     \<and> DefaultPostgresRules = Some rs
     \<and> (\<forall>user db. d_Action (Decide fold_rune (New rs :: unit engine) sql user db) = ActionBlock)"
proof -
  have max: "4 + length payload \<le> pg_max" using assms(3) by (simp add: pg_max_def)
  let ?pkt = "\<lparr>pg_Type = typ, pg_Length = of_nat (4 + length payload), pg_Payload = payload,
    pg_Raw = pg_frame typ payload\<rparr>"
  obtain c' where c': "pg_ReadPacket conn_read c = Some (Inr ?pkt, c')" "conn_bytes c' = rest"
    using conn.pg_ReadPacket_reader_frame [OF assms(1,2) max] by auto
  have "sql \<noteq> []" using assms(4,6) by (auto simp: same_word_def)
  have "ExtractSQL ?pkt = Some (sql, True) \<and> (typ = MsgParse \<longrightarrow> ParseParse ?pkt = Some (name, sql, True))"
    using assms(5)
  proof
    assume q: "typ = MsgQuery \<and> payload = bytes_of sql @ [0]"
    then show ?thesis by (simp add: ExtractSQL_def index_def slice_def nth_append msg_defs)
  next
    assume p: "typ = MsgParse \<and> no_nul name \<and> no_nul sql \<and> payload = bytes_of name @ 0 # bytes_of sql @ 0 # types"
    then have "ParseParse ?pkt = Some (name, sql, True)" by (simp add: ParseParse_eq)
    with ExtractSQL_of_Parse [OF this \<open>sql \<noteq> []\<close>] show ?thesis by blast
  qed
  with c' drop_blocked [OF assms(6-10)] assms(2,4) show ?thesis
    by (intro exI [of _ ?pkt]) auto
qed

theorem postgres_drop_stopped_witness:
  "\<exists>pkt c' rs. pg_ReadPacket conn_read \<lparr>segments = [pg_frame MsgParse (bytes_of ''s1'' @ 0 # bytes_of
         (''SELECT 1; '' @ (''Drop'' @ [CHR 0x0A] @ ''table'') @ '' t'') @ 0 # [0, 0])], close_err = EOF\<rparr>
       = Some (Inr pkt, c')
     \<and> ParseParse pkt = Some (''s1'', ''SELECT 1; '' @ (''Drop'' @ [CHR 0x0A] @ ''table'') @ '' t'', True)
     \<and> DefaultPostgresRules = Some rs
     \<and> d_Action (Decide ascii_fold (New rs :: unit engine)
         (''SELECT 1; '' @ (''Drop'' @ [CHR 0x0A] @ ''table'') @ '' t'') ''app'' ''shop'') = ActionBlock"
proof -
  let ?sql = "''SELECT 1; '' @ (''Drop'' @ [CHR 0x0A] @ ''table'') @ '' t''"
  let ?p = "bytes_of ''s1'' @ 0 # bytes_of ?sql @ 0 # [0, 0]"
  let ?c = "\<lparr>segments = [pg_frame MsgParse ?p], close_err = EOF\<rparr>"
  have c: "conn_ok ?c" "conn_bytes ?c = pg_frame MsgParse ?p @ []"
    by (simp_all add: conn_ok_def conn_bytes_def pg_frame_def)
  have "no_nul ''s1''" "no_nul ?sql" by code_simp+
  then have "(MsgParse = MsgQuery \<and> ?p = bytes_of ?sql @ [0])
       \<or> (MsgParse = MsgParse \<and> no_nul ''s1'' \<and> no_nul ?sql \<and> ?p = bytes_of ''s1'' @ 0 # bytes_of ?sql @ 0 # [0, 0])"
    by blast
  moreover have "4 + length ?p \<le> 256 * 1024 * 1024" by simp
  ultimately show ?thesis
    using postgres_drop_stopped [OF c _ refl _ word_examples, of "''s1''" "[0, 0]" ascii_fold] by blast
qed

end
